theory Spec2Isabelle
  imports Complex_Main "HOL-Library.Signed_Division" "HOL-Library.Sublist"
begin

chapter \<open>libnih D-Bus bindings (nih/dbus.c)\<close>

section \<open>C strings and raw memory\<close>

text \<open>
  A \<open>const char *\<close> argument is modelled by the bytes stored at the pointer. The string it
  denotes ends before the first NUL byte (the end of the list stands for the terminator
  when no NUL occurs earlier).
\<close>

definition NUL :: char where
  "NUL = CHR 0x00"

definition c_str :: "string \<Rightarrow> string" where
  "c_str s = takeWhile (\<lambda>c. c \<noteq> NUL) s"

definition strlen :: "string \<Rightarrow> nat" where
  "strlen s = length (c_str s)"

text \<open>
  Whether plain \<open>char\<close> is signed is left to the platform by C (it is signed on x86 Linux,
  unsigned on ARM and PowerPC Linux). It is a parameter \<open>sc\<close> of the model.
  \<open>char_to_int\<close> is the integer promotion of \<open>*ptr\<close>.
\<close>

definition char_to_int :: "bool \<Rightarrow> char \<Rightarrow> int" where
  "char_to_int sc c = (if sc \<and> (128::int) \<le> of_char c then of_char c - 256 else of_char c)"

text \<open>
  A heap block as returned by \<open>nih_alloc\<close>: a fixed number of cells, each uninitialised
  (\<open>None\<close>) or holding a byte. A write outside the block is a heap overflow, reading an
  uninitialised cell or running off the block is an invalid read.
\<close>

datatype fault = ENOMEM | HeapOverflow | InvalidRead

type_synonym block = "char option list"

definition nih_alloc :: "nat \<Rightarrow> block" where
  "nih_alloc n = replicate n None"

definition poke :: "block \<Rightarrow> nat \<Rightarrow> char \<Rightarrow> fault + block" where
  "poke b i c = (if i < length b then Inr (b[i := Some c]) else Inl HeapOverflow)"

fun poke_bytes :: "block \<Rightarrow> nat \<Rightarrow> string \<Rightarrow> fault + block" where
  "poke_bytes b i [] = Inr b"
| "poke_bytes b i (c # cs) =
     (case poke b i c of Inl e \<Rightarrow> Inl e | Inr b' \<Rightarrow> poke_bytes b' (Suc i) cs)"

text \<open>\<open>strcpy (dst + i, src)\<close>: the bytes of the string and its terminator.\<close>

definition strcpy :: "block \<Rightarrow> nat \<Rightarrow> string \<Rightarrow> fault + block" where
  "strcpy b i src = poke_bytes b i (c_str src @ [NUL])"

text \<open>Reading the block back as a C string, from its first cell.\<close>

fun read_c_str :: "block \<Rightarrow> fault + string" where
  "read_c_str [] = Inl InvalidRead"
| "read_c_str (None # b) = Inl InvalidRead"
| "read_c_str (Some c # b) =
     (if c = NUL then Inr []
      else case read_c_str b of Inl e \<Rightarrow> Inl e | Inr s \<Rightarrow> Inr (c # s))"

subsection \<open>\<open>sprintf (dst, "%02x", v)\<close>\<close>

definition hex_digit :: "nat \<Rightarrow> char" where
  "hex_digit d = ''0123456789abcdef'' ! (d mod 16)"

text \<open>The digits of a non-negative value, most significant first.\<close>

function hex :: "int \<Rightarrow> string" where
  "hex n = (if n < 16 then [hex_digit (nat n)] else hex (n div 16) @ [hex_digit (nat (n mod 16))])"
  by pat_completeness auto
termination
  by (relation "measure nat") auto

declare hex.simps [simp del]

text \<open>
  The \<open>x\<close> conversion takes an \<open>unsigned int\<close>: the promoted \<open>int\<close> argument is read
  modulo \<open>2 ^ 32\<close>. The field is padded with zeros to two digits and never truncated.
\<close>

definition format_02x :: "int \<Rightarrow> string" where
  "format_02x v = (let s = hex (v mod 2 ^ 32) in replicate (2 - length s) (CHR ''0'') @ s)"

definition sprintf_02x :: "block \<Rightarrow> nat \<Rightarrow> int \<Rightarrow> fault + block" where
  "sprintf_02x b i v = poke_bytes b i (format_02x v @ [NUL])"

section \<open>Path encoding: \<open>nih_dbus_path\<close>\<close>

text \<open>The test \<open>[a-z] || [A-Z] || [0-9]\<close> on the promoted character.\<close>

definition is_alnum :: "bool \<Rightarrow> char \<Rightarrow> bool" where
  "is_alnum sc c =
     (let v = char_to_int sc c in
        (of_char (CHR ''a'') \<le> v \<and> v \<le> of_char (CHR ''z''))
      \<or> (of_char (CHR ''A'') \<le> v \<and> v \<le> of_char (CHR ''Z''))
      \<or> (of_char (CHR ''0'') \<le> v \<and> v \<le> of_char (CHR ''9'')))"

text \<open>First pass: the space one element needs, without its separator.\<close>

fun element_len :: "bool \<Rightarrow> string \<Rightarrow> nat" where
  "element_len sc [] = 0"
| "element_len sc (c # ptr) =
     (if c = NUL then 0
      else if is_alnum sc c then 1 + element_len sc ptr
      else 3 + element_len sc ptr)"

fun path_len :: "bool \<Rightarrow> string list \<Rightarrow> nat" where
  "path_len sc [] = 0"
| "path_len sc (arg # args) = 1 + element_len sc arg + path_len sc args"

text \<open>Second pass: the inner loop over the bytes of one element.\<close>

fun copy_element :: "bool \<Rightarrow> string \<Rightarrow> block \<Rightarrow> nat \<Rightarrow> fault + (block \<times> nat)" where
  "copy_element sc [] path len = Inr (path, len)"
| "copy_element sc (c # ptr) path len =
     (if c = NUL then Inr (path, len)
      else if is_alnum sc c then
        (case poke path len c of
           Inl e \<Rightarrow> Inl e
         | Inr path' \<Rightarrow> copy_element sc ptr path' (len + 1))
      else
        (case poke path len (CHR ''_'') of
           Inl e \<Rightarrow> Inl e
         | Inr path' \<Rightarrow>
             (case sprintf_02x path' (len + 1) (char_to_int sc c) of
                Inl e \<Rightarrow> Inl e
              | Inr path'' \<Rightarrow> copy_element sc ptr path'' (len + 1 + 2))))"

text \<open>Second pass: the outer loop over the elements.\<close>

fun copy_elements :: "bool \<Rightarrow> string list \<Rightarrow> block \<Rightarrow> nat \<Rightarrow> fault + (block \<times> nat)" where
  "copy_elements sc [] path len = Inr (path, len)"
| "copy_elements sc (arg # args) path len =
     (case poke path len (CHR ''/'') of
        Inl e \<Rightarrow> Inl e
      | Inr path' \<Rightarrow>
          (case copy_element sc arg path' (len + 1) of
             Inl e \<Rightarrow> Inl e
           | Inr (path'', len') \<Rightarrow> copy_elements sc args path'' len'))"

text \<open>
  \<open>nih_dbus_path (parent, root, ...)\<close>. \<open>sc\<close>: plain \<open>char\<close> is signed; \<open>mem\<close>: the
  allocation succeeds; \<open>args\<close>: the elements before the terminating NULL argument. The
  result is the string the returned pointer denotes.
\<close>

definition nih_dbus_path :: "bool \<Rightarrow> bool \<Rightarrow> string \<Rightarrow> string list \<Rightarrow> fault + string" where
  "nih_dbus_path sc mem rt args =
     (let len = strlen rt + path_len sc args in
      if \<not> mem then Inl ENOMEM
      else
        case strcpy (nih_alloc (len + 1)) 0 rt of
          Inl e \<Rightarrow> Inl e
        | Inr path \<Rightarrow>
            (case copy_elements sc args path (strlen rt) of
               Inl e \<Rightarrow> Inl e
             | Inr (path', len') \<Rightarrow>
                 (case poke path' len' NUL of
                    Inl e \<Rightarrow> Inl e
                  | Inr path'' \<Rightarrow> read_c_str path'')))"

subsection \<open>The encoding as the specification words it\<close>

text \<open>
  Section 4.7 of the specification: characters in \<open>[A-Za-z0-9]\<close> pass through, every other
  byte is encoded as \<open>_\<close> followed by its two lowercase hexadecimal digits; the elements
  are joined to the root with \<open>/\<close> separators. These definitions follow the specification,
  not the code; the theorems below compare them with \<open>nih_dbus_path\<close>.
\<close>

definition spec_alnum :: "char \<Rightarrow> bool" where
  "spec_alnum c = (c \<in> set ''abcdefghijklmnopqrstuvwxyzABCDEFGHIJKLMNOPQRSTUVWXYZ0123456789'')"

definition spec_encode_byte :: "char \<Rightarrow> string" where
  "spec_encode_byte c =
     (if spec_alnum c then [c]
      else [CHR ''_'', hex_digit (of_char c div 16), hex_digit (of_char c mod 16)])"

definition spec_sanitise :: "string \<Rightarrow> string" where
  "spec_sanitise x = concat (map spec_encode_byte x)"

definition spec_elements :: "string list \<Rightarrow> string" where
  "spec_elements xs = concat (map (\<lambda>x. CHR ''/'' # spec_sanitise x) xs)"

definition spec_make_path :: "string \<Rightarrow> string list \<Rightarrow> string" where
  "spec_make_path rt xs = rt @ spec_elements xs"

text \<open>The regular expression \<open>^/[A-Za-z0-9_]+$\<close>.\<close>

definition matches_path_regex :: "string \<Rightarrow> bool" where
  "matches_path_regex s =
     (case s of [] \<Rightarrow> False
      | c # r \<Rightarrow> c = CHR ''/'' \<and> r \<noteq> [] \<and> list_all (\<lambda>d. spec_alnum d \<or> d = CHR ''_'') r)"

text \<open>Every byte of the string is below \<open>0x80\<close>.\<close>

definition seven_bit :: "string \<Rightarrow> bool" where
  "seven_bit s = list_all (\<lambda>c. (of_char c :: nat) < 128) (c_str s)"

text \<open>Results of a run on a block that has a prefix \<open>pre\<close> in front of it.\<close>

definition shiftb :: "block \<Rightarrow> fault + block \<Rightarrow> fault + block" where
  "shiftb pre r = (case r of Inl e \<Rightarrow> Inl e | Inr b \<Rightarrow> Inr (pre @ b))"

definition shift :: "block \<Rightarrow> fault + block \<times> nat \<Rightarrow> fault + block \<times> nat" where
  "shift pre r = (case r of Inl e \<Rightarrow> Inl e | Inr (b, l) \<Rightarrow> Inr (pre @ b, length pre + l))"

section \<open>The host main loop\<close>

text \<open>
  Modelled from the spec: \<open>nih_list_add\<close>, \<open>nih_list_remove\<close>, \<open>nih_io_add_watch\<close> and
  \<open>nih_timer_add_periodic\<close> are libnih functions defined outside \<open>nih/dbus.c\<close>. Section 6
  of the specification: registering an I/O watch on \<open>(fd, events)\<close> yields a handle that
  lives in an active watches container, from which it may be removed and re-added
  without re-registration; a periodic timer is registered with a period in seconds and
  a due time and is likewise removable and re-insertable.

  A structure is named by its address, a \<open>handle\<close>. A list entry is in at most one place
  of a list: adding an entry first takes it out of the list it is in.
\<close>

type_synonym handle = nat

datatype NihIoEvent = NIH_IO_READ | NIH_IO_WRITE | NIH_IO_EXCEPT

record NihIoWatch =
  io_fd :: int
  io_events :: "NihIoEvent set"
  io_data :: nat

record NihTimer =
  period :: int
  due :: int
  timer_data :: nat

datatype DBusWatchFlag =
  DBUS_WATCH_READABLE | DBUS_WATCH_WRITABLE | DBUS_WATCH_ERROR | DBUS_WATCH_HANGUP

text \<open>
  The D-Bus library's watch and timeout objects, as the accessors \<open>dbus_watch_get_unix_fd\<close>,
  \<open>dbus_watch_get_flags\<close>, \<open>dbus_watch_get_enabled\<close>, \<open>dbus_watch_get_data\<close> and
  \<open>dbus_timeout_get_interval\<close>, \<open>dbus_timeout_get_enabled\<close>, \<open>dbus_timeout_get_data\<close>
  show them. The data member is NULL (\<open>None\<close>) or the address of the host structure.
\<close>

record DBusWatch =
  watch_fd :: int
  watch_flags :: "DBusWatchFlag set"
  watch_enabled :: bool
  watch_data :: "handle option"

record DBusTimeout =
  timeout_interval :: int
  timeout_enabled :: bool
  timeout_data :: "handle option"

text \<open>
  The store: the library's watches and timeouts by address, the allocated host
  structures by address, and the two active lists \<open>nih_io_watches\<close> and \<open>nih_timers\<close>.
\<close>

record world =
  watches :: "DBusWatch list"
  timeouts :: "DBusTimeout list"
  io_heap :: "NihIoWatch list"
  timer_heap :: "NihTimer list"
  nih_io_watches :: "handle list"
  nih_timers :: "handle list"

definition world0 :: world where
  "world0 = \<lparr>watches = [], timeouts = [], io_heap = [], timer_heap = [],
             nih_io_watches = [], nih_timers = []\<rparr>"

definition nih_list_remove :: "handle list \<Rightarrow> handle \<Rightarrow> handle list" where
  "nih_list_remove list entry = removeAll entry list"

definition nih_list_add :: "handle list \<Rightarrow> handle \<Rightarrow> handle list" where
  "nih_list_add list entry = nih_list_remove list entry @ [entry]"

text \<open>\<open>mem\<close>: the allocation succeeds. The new structure is in the active list.\<close>

definition nih_io_add_watch ::
    "bool \<Rightarrow> int \<Rightarrow> NihIoEvent set \<Rightarrow> nat \<Rightarrow> world \<Rightarrow> handle option \<times> world" where
  "nih_io_add_watch mem fd events data w =
     (if \<not> mem then (None, w)
      else
        let io_watch = length (io_heap w) in
        (Some io_watch,
         w\<lparr>io_heap := io_heap w @ [\<lparr>io_fd = fd, io_events = events, io_data = data\<rparr>],
           nih_io_watches := nih_list_add (nih_io_watches w) io_watch\<rparr>))"

text \<open>\<open>now\<close>: the value of \<open>time (NULL)\<close>.\<close>

definition nih_timer_add_periodic ::
    "bool \<Rightarrow> int \<Rightarrow> int \<Rightarrow> nat \<Rightarrow> world \<Rightarrow> handle option \<times> world" where
  "nih_timer_add_periodic mem now p data w =
     (if \<not> mem then (None, w)
      else
        let timer = length (timer_heap w) in
        (Some timer,
         w\<lparr>timer_heap := timer_heap w @ [\<lparr>period = p, due = now + p, timer_data = data\<rparr>],
           nih_timers := nih_list_add (nih_timers w) timer\<rparr>))"

section \<open>The watch bridge: \<open>nih_dbus_add_watch\<close>, \<open>nih_dbus_watch_toggled\<close>\<close>

text \<open>
  A callback returns \<open>None\<close> when an \<open>nih_assert\<close> fails (the process aborts). A watch
  pointer is the address of a watch in the store; an address outside the store stands
  for an invalid pointer.
\<close>

definition nih_dbus_add_watch :: "bool \<Rightarrow> nat \<Rightarrow> world \<Rightarrow> (bool \<times> world) option" where
  "nih_dbus_add_watch mem watch w =
     (if \<not> watch < length (watches w) then None
      else if watch_data (watches w ! watch) \<noteq> None then None
      else
        let fd = watch_fd (watches w ! watch) in
        if \<not> 0 \<le> fd then None
        else
          let flags = watch_flags (watches w ! watch);
              events = {NIH_IO_EXCEPT}
                \<union> (if DBUS_WATCH_READABLE \<in> flags then {NIH_IO_READ} else {})
                \<union> (if DBUS_WATCH_WRITABLE \<in> flags then {NIH_IO_WRITE} else {})
          in
            case nih_io_add_watch mem fd events watch w of
              (None, w') \<Rightarrow> Some (False, w')
            | (Some io_watch, w') \<Rightarrow>
                let w'' = w'\<lparr>watches := (watches w')[watch :=
                              (watches w' ! watch)\<lparr>watch_data := Some io_watch\<rparr>]\<rparr>
                in
                  if \<not> watch_enabled (watches w'' ! watch)
                  then Some (True,
                         w''\<lparr>nih_io_watches := nih_list_remove (nih_io_watches w'') io_watch\<rparr>)
                  else Some (True, w''))"

definition nih_dbus_watch_toggled :: "nat \<Rightarrow> world \<Rightarrow> world option" where
  "nih_dbus_watch_toggled watch w =
     (if \<not> watch < length (watches w) then None
      else
        case watch_data (watches w ! watch) of
          None \<Rightarrow> None
        | Some io_watch \<Rightarrow>
            if watch_enabled (watches w ! watch)
            then Some (w\<lparr>nih_io_watches := nih_list_add (nih_io_watches w) io_watch\<rparr>)
            else Some (w\<lparr>nih_io_watches := nih_list_remove (nih_io_watches w) io_watch\<rparr>))"

text \<open>
  The D-Bus library drives the callbacks: it creates a watch (with no data) and calls
  the add function, and does not keep the watch when the add function returns FALSE;
  it sets the enabled flag of a watch and calls the toggled function.
\<close>

datatype watch_call =
  AddWatch int "DBusWatchFlag set" bool bool
| ToggleWatch nat bool

fun watch_step :: "watch_call \<Rightarrow> world \<Rightarrow> world option" where
  "watch_step (AddWatch fd flags enabled mem) w =
     (case nih_dbus_add_watch mem (length (watches w))
             (w\<lparr>watches := watches w @ [\<lparr>watch_fd = fd, watch_flags = flags,
                  watch_enabled = enabled, watch_data = None\<rparr>]\<rparr>) of
        None \<Rightarrow> None
      | Some (ok, w') \<Rightarrow> Some (if ok then w' else w'\<lparr>watches := butlast (watches w')\<rparr>))"
| "watch_step (ToggleWatch watch enabled) w =
     (if \<not> watch < length (watches w) then None
      else nih_dbus_watch_toggled watch
             (w\<lparr>watches := (watches w)[watch := (watches w ! watch)\<lparr>watch_enabled := enabled\<rparr>]\<rparr>))"

fun watch_run :: "watch_call list \<Rightarrow> world \<Rightarrow> world option" where
  "watch_run [] w = Some w"
| "watch_run (c # cs) w = (case watch_step c w of None \<Rightarrow> None | Some w' \<Rightarrow> watch_run cs w')"

text \<open>
  The property of C7: every watch of the library has its host I/O watch allocated, once
  in the active list when the watch is enabled, and not in it when the watch is disabled.
\<close>

definition watch_balanced :: "world \<Rightarrow> bool" where
  "watch_balanced w =
     (\<forall>watch < length (watches w). \<exists>io_watch.
        watch_data (watches w ! watch) = Some io_watch
        \<and> io_watch < length (io_heap w)
        \<and> io_data (io_heap w ! io_watch) = watch
        \<and> count_list (nih_io_watches w) io_watch
            = (if watch_enabled (watches w ! watch) then 1 else 0))"

section \<open>The timeout bridge: \<open>nih_dbus_add_timeout\<close>, \<open>nih_dbus_timeout_toggled\<close>\<close>

text \<open>
  \<open>(interval - 1) / 1000 + 1\<close> on C \<open>int\<close>: the division truncates towards zero. The
  interval is a C \<open>int\<close>; the subtraction cannot overflow for the non-negative intervals
  of D-Bus timeouts.
\<close>

definition timeout_period :: "int \<Rightarrow> int" where
  "timeout_period interval = (interval - 1) sdiv 1000 + 1"

definition nih_dbus_add_timeout :: "bool \<Rightarrow> int \<Rightarrow> nat \<Rightarrow> world \<Rightarrow> (bool \<times> world) option" where
  "nih_dbus_add_timeout mem now timeout w =
     (if \<not> timeout < length (timeouts w) then None
      else if timeout_data (timeouts w ! timeout) \<noteq> None then None
      else
        let interval = timeout_interval (timeouts w ! timeout) in
        case nih_timer_add_periodic mem now (timeout_period interval) timeout w of
          (None, w') \<Rightarrow> Some (False, w')
        | (Some timer, w') \<Rightarrow>
            let w'' = w'\<lparr>timeouts := (timeouts w')[timeout :=
                          (timeouts w' ! timeout)\<lparr>timeout_data := Some timer\<rparr>]\<rparr>
            in
              if \<not> timeout_enabled (timeouts w'' ! timeout)
              then Some (True, w''\<lparr>nih_timers := nih_list_remove (nih_timers w'') timer\<rparr>)
              else Some (True, w''))"

definition nih_dbus_timeout_toggled :: "int \<Rightarrow> nat \<Rightarrow> world \<Rightarrow> world option" where
  "nih_dbus_timeout_toggled now timeout w =
     (if \<not> timeout < length (timeouts w) then None
      else
        case timeout_data (timeouts w ! timeout) of
          None \<Rightarrow> None
        | Some timer \<Rightarrow>
            let w' = (if timeout_enabled (timeouts w ! timeout)
                      then w\<lparr>nih_timers := nih_list_add (nih_timers w) timer\<rparr>
                      else w\<lparr>nih_timers := nih_list_remove (nih_timers w) timer\<rparr>);
                interval = timeout_interval (timeouts w' ! timeout);
                p = timeout_period interval
            in Some (w'\<lparr>timer_heap := (timer_heap w')[timer :=
                           (timer_heap w' ! timer)\<lparr>period := p, due := now + p\<rparr>]\<rparr>))"

text \<open>The period of the host timer of a timeout, when it has one.\<close>

definition timer_period :: "world \<Rightarrow> nat \<Rightarrow> int option" where
  "timer_period w timeout =
     (if \<not> timeout < length (timeouts w) then None
      else
        case timeout_data (timeouts w ! timeout) of
          None \<Rightarrow> None
        | Some timer \<Rightarrow>
            if timer < length (timer_heap w) then Some (period (timer_heap w ! timer)) else None)"

text \<open>The period as the specification words it: \<open>ceil (interval_ms / 1000)\<close> seconds.\<close>

definition spec_period :: "int \<Rightarrow> int" where
  "spec_period interval_ms = \<lceil>real_of_int interval_ms / 1000\<rceil>"

text \<open>A store holding one timeout that has not been added yet.\<close>

definition one_timeout :: "int \<Rightarrow> bool \<Rightarrow> world" where
  "one_timeout interval enabled =
     world0\<lparr>timeouts := [\<lparr>timeout_interval = interval, timeout_enabled = enabled,
                          timeout_data = None\<rparr>]\<rparr>"

text \<open>The library changes the interval and the enabled flag of a timeout.\<close>

definition set_timeout :: "nat \<Rightarrow> int \<Rightarrow> bool \<Rightarrow> world \<Rightarrow> world" where
  "set_timeout timeout interval enabled w =
     w\<lparr>timeouts := (timeouts w)[timeout :=
         (timeouts w ! timeout)\<lparr>timeout_interval := interval, timeout_enabled := enabled\<rparr>]\<rparr>"

section \<open>Messages and handler results of the D-Bus library\<close>

datatype DBusHandlerResult =
  DBUS_HANDLER_RESULT_HANDLED
| DBUS_HANDLER_RESULT_NOT_YET_HANDLED
| DBUS_HANDLER_RESULT_NEED_MEMORY

datatype DBusMessageType =
  DBUS_MESSAGE_TYPE_METHOD_CALL
| DBUS_MESSAGE_TYPE_METHOD_RETURN
| DBUS_MESSAGE_TYPE_ERROR
| DBUS_MESSAGE_TYPE_SIGNAL

text \<open>The header fields of a message the bindings look at; a field may be absent.\<close>

record DBusMessage =
  msg_type :: DBusMessageType
  msg_path :: "string option"
  msg_interface :: "string option"
  msg_member :: "string option"

definition DBUS_INTERFACE_LOCAL :: string where
  "DBUS_INTERFACE_LOCAL = ''org.freedesktop.DBus.Local''"

definition DBUS_PATH_LOCAL :: string where
  "DBUS_PATH_LOCAL = ''/org/freedesktop/DBus/Local''"

definition DBUS_INTERFACE_INTROSPECTABLE :: string where
  "DBUS_INTERFACE_INTROSPECTABLE = ''org.freedesktop.DBus.Introspectable''"

definition DBUS_INTERFACE_PROPERTIES :: string where
  "DBUS_INTERFACE_PROPERTIES = ''org.freedesktop.DBus.Properties''"

text \<open>
  The tests of the D-Bus library, as its documentation gives them: the message has the
  type and the member, and its interface field is the given interface or is missing.
\<close>

definition has_type_interface_member ::
    "DBusMessage \<Rightarrow> DBusMessageType \<Rightarrow> string \<Rightarrow> string \<Rightarrow> bool" where
  "has_type_interface_member message t interface member =
     (msg_type message = t \<and> msg_member message = Some member
      \<and> (msg_interface message = None \<or> msg_interface message = Some interface))"

definition dbus_message_is_signal :: "DBusMessage \<Rightarrow> string \<Rightarrow> string \<Rightarrow> bool" where
  "dbus_message_is_signal message interface signal_name =
     has_type_interface_member message DBUS_MESSAGE_TYPE_SIGNAL interface signal_name"

definition dbus_message_is_method_call :: "DBusMessage \<Rightarrow> string \<Rightarrow> string \<Rightarrow> bool" where
  "dbus_message_is_method_call message interface method =
     has_type_interface_member message DBUS_MESSAGE_TYPE_METHOD_CALL interface method"

definition dbus_message_has_path :: "DBusMessage \<Rightarrow> string \<Rightarrow> bool" where
  "dbus_message_has_path message path = (msg_path message = Some path)"

section \<open>Connection setup: \<open>nih_dbus_setup\<close>, \<open>nih_dbus_connection_disconnected\<close>\<close>

text \<open>
  What the bindings do to a connection of the library. A disconnect handler is a function
  pointer, NULL (\<open>None\<close>) or the identity of a user function; calling it is recorded in
  the trace, as is every \<open>dbus_connection_unref\<close>. The connection records how often each
  set of functions was installed, the data of \<open>main_loop_slot\<close> (the main loop function
  registered by \<open>nih_main_loop_add_func\<close>), the number of main loop functions registered
  for it, and the filters in the order they were added, each with its user data.
\<close>

datatype conn_event = HandlerCalled nat | ConnectionUnref

record DBusConnection =
  refcount :: int
  main_loop_data :: "bool"
  main_loop_funcs :: nat
  watch_functions :: nat
  timeout_functions :: nat
  wakeup_main_functions :: nat
  filters :: "nat option list"
  trace :: "conn_event list"

text \<open>
  The calls of \<open>nih_dbus_setup\<close> that can fail for lack of memory, each with whether it
  succeeds in this call of \<open>nih_dbus_setup\<close>.
\<close>

record setup_mem =
  allocate_data_slot_ok :: bool
  main_loop_add_func_ok :: bool
  set_data_ok :: bool
  set_watch_functions_ok :: bool
  set_timeout_functions_ok :: bool
  add_filter_ok :: bool

definition all_ok :: setup_mem where
  "all_ok = \<lparr>allocate_data_slot_ok = True, main_loop_add_func_ok = True, set_data_ok = True,
             set_watch_functions_ok = True, set_timeout_functions_ok = True,
             add_filter_ok = True\<rparr>"

text \<open>The code from the label \<open>shared\<close> on.\<close>

definition setup_shared :: "setup_mem \<Rightarrow> nat option \<Rightarrow> DBusConnection \<Rightarrow> int \<times> DBusConnection" where
  "setup_shared m disconnect_handler conn =
     (if \<not> add_filter_ok m then (- 1, conn)
      else (0, conn\<lparr>filters := filters conn @ [disconnect_handler]\<rparr>))"

definition nih_dbus_setup :: "setup_mem \<Rightarrow> nat option \<Rightarrow> DBusConnection \<Rightarrow> int \<times> DBusConnection" where
  "nih_dbus_setup m disconnect_handler conn =
     (if \<not> allocate_data_slot_ok m then (- 1, conn)
      else if main_loop_data conn then setup_shared m disconnect_handler conn
      else if \<not> main_loop_add_func_ok m then (- 1, conn)
      else if \<not> set_data_ok m then (- 1, conn)
      else
        let conn1 = conn\<lparr>main_loop_funcs := main_loop_funcs conn + 1, main_loop_data := True\<rparr> in
        if \<not> set_watch_functions_ok m then (- 1, conn1)
        else
          let conn2 = conn1\<lparr>watch_functions := watch_functions conn1 + 1\<rparr> in
          if \<not> set_timeout_functions_ok m then (- 1, conn2)
          else
            let conn3 = conn2\<lparr>timeout_functions := timeout_functions conn2 + 1\<rparr>;
                conn4 = conn3\<lparr>wakeup_main_functions := wakeup_main_functions conn3 + 1\<rparr>
            in setup_shared m disconnect_handler conn4)"

definition nih_dbus_connection_disconnected ::
    "DBusConnection \<Rightarrow> DBusMessage \<Rightarrow> nat option \<Rightarrow> DBusHandlerResult \<times> DBusConnection" where
  "nih_dbus_connection_disconnected conn message handler =
     (if \<not> dbus_message_is_signal message DBUS_INTERFACE_LOCAL ''Disconnected''
      then (DBUS_HANDLER_RESULT_NOT_YET_HANDLED, conn)
      else if \<not> dbus_message_has_path message DBUS_PATH_LOCAL
      then (DBUS_HANDLER_RESULT_NOT_YET_HANDLED, conn)
      else
        let conn1 = (case handler of
                       None \<Rightarrow> conn
                     | Some h \<Rightarrow> conn\<lparr>trace := trace conn @ [HandlerCalled h]\<rparr>);
            conn2 = conn1\<lparr>refcount := refcount conn1 - 1,
                          trace := trace conn1 @ [ConnectionUnref]\<rparr>
        in (DBUS_HANDLER_RESULT_NOT_YET_HANDLED, conn2))"

text \<open>
  The library passes a message to the filters in the order they were added, until one
  of them returns something else than not-yet-handled. Every filter the bindings add is
  \<open>nih_dbus_connection_disconnected\<close> with the disconnect handler as its user data.
\<close>

fun run_filters ::
    "nat option list \<Rightarrow> DBusMessage \<Rightarrow> DBusConnection \<Rightarrow> DBusHandlerResult \<times> DBusConnection" where
  "run_filters [] message conn = (DBUS_HANDLER_RESULT_NOT_YET_HANDLED, conn)"
| "run_filters (handler # fs) message conn =
     (case nih_dbus_connection_disconnected conn message handler of
        (DBUS_HANDLER_RESULT_NOT_YET_HANDLED, conn') \<Rightarrow> run_filters fs message conn'
      | (result, conn') \<Rightarrow> (result, conn'))"

definition dispatch_filters :: "DBusMessage \<Rightarrow> DBusConnection \<Rightarrow> DBusHandlerResult \<times> DBusConnection" where
  "dispatch_filters message conn = run_filters (filters conn) message conn"

text \<open>A sequence of calls of \<open>nih_dbus_setup\<close> on one connection, with their return values.\<close>

fun setup_calls :: "(setup_mem \<times> nat option) list \<Rightarrow> DBusConnection \<Rightarrow> int list \<times> DBusConnection" where
  "setup_calls [] conn = ([], conn)"
| "setup_calls ((m, handler) # calls) conn =
     (case nih_dbus_setup m handler conn of
        (ret, conn') \<Rightarrow> (case setup_calls calls conn' of (rets, conn'') \<Rightarrow> (ret # rets, conn'')))"

text \<open>A connection of the library that the bindings have not set up yet.\<close>

definition new_connection :: "int \<Rightarrow> DBusConnection" where
  "new_connection refs =
     \<lparr>refcount = refs, main_loop_data = False, main_loop_funcs = 0, watch_functions = 0,
      timeout_functions = 0, wakeup_main_functions = 0, filters = [], trace = []\<rparr>"

text \<open>The signal the library delivers when a connection is lost.\<close>

definition disconnected_signal :: DBusMessage where
  "disconnected_signal =
     \<lparr>msg_type = DBUS_MESSAGE_TYPE_SIGNAL, msg_path = Some DBUS_PATH_LOCAL,
      msg_interface = Some DBUS_INTERFACE_LOCAL, msg_member = Some ''Disconnected''\<rparr>"

text \<open>The events a disconnect handler leaves in the trace when the signal passes its filter.\<close>

definition filter_events :: "nat option \<Rightarrow> conn_event list" where
  "filter_events handler =
     (case handler of None \<Rightarrow> [] | Some h \<Rightarrow> [HandlerCalled h]) @ [ConnectionUnref]"

text \<open>The main loop function and the three sets of functions are installed once.\<close>

definition installed_once :: "DBusConnection \<Rightarrow> bool" where
  "installed_once conn =
     (main_loop_data conn \<and> main_loop_funcs conn = 1 \<and> watch_functions conn = 1
      \<and> timeout_functions conn = 1 \<and> wakeup_main_functions conn = 1)"

section \<open>Object teardown: \<open>nih_dbus_object_destroy\<close>, \<open>nih_dbus_object_unregister\<close>\<close>

text \<open>
  The state of one object and of its path: the \<open>registered\<close> flag of the object, whether
  the block of the object has been freed, whether the path is in the object tree of the
  connection, and how often the path was unregistered with the library and the block
  was handed to \<open>nih_free\<close>.
\<close>

record object_state =
  registered :: bool
  freed :: bool
  path_registered :: bool
  unregister_calls :: nat
  free_calls :: nat

text \<open>
  Modelled from the spec: \<open>nih_free\<close> is libnih code outside \<open>nih/dbus.c\<close>. It runs the
  destructor installed by \<open>nih_alloc_set_destructor\<close>, which is
  \<open>nih_dbus_object_destroy\<close>, and then frees the block (section 4.5 of the
  specification: a destructor is installed so that releasing the object also
  unregisters it).
\<close>

text \<open>
  \<open>dbus_connection_unregister_object_path\<close> is the library's: it takes a registered path
  out of the tree and calls the unregister function of the vtable, which is
  \<open>nih_dbus_object_unregister\<close>, with the object; for a path that is not in the tree it
  does nothing. So the two functions of the bindings call each other through the
  library and the allocator, and the four are defined together.
\<close>

function nih_dbus_object_destroy :: "object_state \<Rightarrow> object_state"
  and dbus_connection_unregister_object_path :: "object_state \<Rightarrow> object_state"
  and nih_dbus_object_unregister :: "object_state \<Rightarrow> object_state"
  and nih_free :: "object_state \<Rightarrow> object_state"
where
  "nih_dbus_object_destroy object =
     (if registered object
      then dbus_connection_unregister_object_path (object\<lparr>registered := False\<rparr>)
      else object)"
| "dbus_connection_unregister_object_path object =
     (if path_registered object
      then nih_dbus_object_unregister
             (object\<lparr>path_registered := False, unregister_calls := unregister_calls object + 1\<rparr>)
      else object\<lparr>unregister_calls := unregister_calls object + 1\<rparr>)"
| "nih_dbus_object_unregister object =
     (if registered object
      then nih_free (object\<lparr>registered := False\<rparr>)
      else object)"
| "nih_free object =
     (nih_dbus_object_destroy object)\<lparr>freed := True, free_calls := free_calls object + 1\<rparr>"
  by pat_completeness auto
termination
  by (relation "measure (\<lambda>x. case x of
                  Inl (Inl object) \<Rightarrow> (if registered object then 2 else 0)
                | Inl (Inr object) \<Rightarrow> (if registered object then 2 else 0) + 1
                | Inr (Inl object) \<Rightarrow> (if registered object then 2 else 0)
                | Inr (Inr object) \<Rightarrow> (if registered object then 2 else 0) + 1)") auto

section \<open>Objects and their interface tables\<close>

text \<open>
  A NULL-terminated array is the list of its elements before the terminator; a NULL
  array pointer is the empty list. A marshaller is a function pointer, modelled by
  the identity of the function.
\<close>

datatype NihDBusArgDir = NIH_DBUS_ARG_IN | NIH_DBUS_ARG_OUT

datatype NihDBusAccess = NIH_DBUS_READ | NIH_DBUS_WRITE | NIH_DBUS_READWRITE

record NihDBusArg =
  arg_name :: string
  arg_type :: string
  arg_dir :: NihDBusArgDir

record NihDBusMethod =
  method_name :: string
  marshaller :: nat
  method_args :: "NihDBusArg list"

record NihDBusSignal =
  signal_name :: string
  signal_args :: "NihDBusArg list"

record NihDBusProperty =
  property_name :: string
  property_type :: string
  property_access :: NihDBusAccess

record NihDBusInterface =
  interface_name :: string
  methods :: "NihDBusMethod list"
  signals :: "NihDBusSignal list"
  properties :: "NihDBusProperty list"

record NihDBusObject =
  object_conn :: nat
  object_path :: string
  interfaces :: "NihDBusInterface list"

section \<open>Introspection: \<open>nih_dbus_object_introspect\<close>\<close>

text \<open>
  The string under construction, the flag \<open>have_props\<close>, and the memory: \<open>mem_left\<close> is the
  number of calls that can fail for lack of memory which still succeed; the call made
  when \<open>mem_left\<close> is 0 fails. \<open>Inl\<close> is the jump to the label \<open>error\<close>, with the locals as they
  are then.
\<close>

record build =
  xml :: string
  have_props :: bool
  mem_left :: nat

definition nih_strcat :: "string \<Rightarrow> build \<Rightarrow> build + build" where
  "nih_strcat text b =
     (if mem_left b = 0 then Inl b else Inr (b\<lparr>xml := xml b @ text, mem_left := mem_left b - 1\<rparr>))"

text \<open>\<open>nih_strcat_sprintf\<close> applied to the text its format and arguments produce.\<close>

definition nih_strcat_sprintf :: "string \<Rightarrow> build \<Rightarrow> build + build" where
  "nih_strcat_sprintf text b = nih_strcat text b"

definition then_do :: "build + build \<Rightarrow> (build \<Rightarrow> build + build) \<Rightarrow> build + build" where
  "then_do r f = (case r of Inl b \<Rightarrow> Inl b | Inr b \<Rightarrow> f b)"

definition DBUS_INTROSPECT_1_0_XML_DOCTYPE_DECL_NODE :: string where
  \<open>DBUS_INTROSPECT_1_0_XML_DOCTYPE_DECL_NODE =
     ''<!DOCTYPE node PUBLIC "-//freedesktop//DTD D-BUS Object Introspection 1.0//EN"\<newline>''
     @ ''"http://www.freedesktop.org/standards/dbus/1.0/introspect.dtd">\<newline>''\<close>

definition node_open_text :: "string \<Rightarrow> string" where
  \<open>node_open_text path = ''<node name="'' @ path @ ''">\<newline>''\<close>

definition introspectable_text :: string where
  \<open>introspectable_text =
     ''  <interface name="'' @ DBUS_INTERFACE_INTROSPECTABLE @ ''">\<newline>''
     @ ''    <method name="Introspect">\<newline>''
     @ ''      <arg name="data" type="s" direction="out"/>\<newline>''
     @ ''    </method>\<newline>''
     @ ''  </interface>\<newline>''\<close>

definition interface_open_text :: "string \<Rightarrow> string" where
  \<open>interface_open_text name = ''  <interface name="'' @ name @ ''">\<newline>''\<close>

definition method_open_text :: "string \<Rightarrow> string" where
  \<open>method_open_text name = ''    <method name="'' @ name @ ''">\<newline>''\<close>

definition method_arg_text :: "NihDBusArg \<Rightarrow> string" where
  \<open>method_arg_text arg =
     ''      <arg name="'' @ arg_name arg @ ''" type="'' @ arg_type arg @ ''"''
     @ '' direction="'' @ (if arg_dir arg = NIH_DBUS_ARG_IN then ''in'' else ''out'')
     @ ''"/>\<newline>''\<close>

definition signal_open_text :: "string \<Rightarrow> string" where
  \<open>signal_open_text name = ''    <signal name="'' @ name @ ''">\<newline>''\<close>

definition signal_arg_text :: "NihDBusArg \<Rightarrow> string" where
  \<open>signal_arg_text arg =
     ''      <arg name="'' @ arg_name arg @ ''" type="'' @ arg_type arg @ ''"/>\<newline>''\<close>

definition property_text :: "NihDBusProperty \<Rightarrow> string" where
  \<open>property_text property =
     ''    <property name="'' @ property_name property @ ''" type="''
     @ property_type property @ ''" '' @ ''access="''
     @ (if property_access property = NIH_DBUS_READ then ''read''
        else if property_access property = NIH_DBUS_WRITE then ''write'' else ''readwrite'')
     @ ''"/>\<newline>''\<close>

definition properties_interface_text :: string where
  \<open>properties_interface_text =
     ''  <interface name="'' @ DBUS_INTERFACE_PROPERTIES @ ''">\<newline>''
     @ ''    <method name="Get">\<newline>''
     @ ''      <arg name="interface_name" type="s" direction="in"/>\<newline>''
     @ ''      <arg name="property_name" type="s" direction="in"/>\<newline>''
     @ ''      <arg name="value" type="v" direction="out"/>\<newline>''
     @ ''    </method>\<newline>''
     @ ''    <method name="Set">\<newline>''
     @ ''      <arg name="interface_name" type="s" direction="in"/>\<newline>''
     @ ''      <arg name="property_name" type="s" direction="in"/>\<newline>''
     @ ''      <arg name="value" type="v" direction="in"/>\<newline>''
     @ ''    </method>\<newline>''
     @ ''    <method name="GetAll">\<newline>''
     @ ''      <arg name="interface_name" type="s" direction="in"/>\<newline>''
     @ ''      <arg name="props" type="a{sv}" direction="out"/>\<newline>''
     @ ''    </method>\<newline>''
     @ ''  </interface>\<newline>''\<close>

definition child_node_text :: "string \<Rightarrow> string" where
  \<open>child_node_text child = ''  <node name="'' @ child @ ''"/>\<newline>''\<close>

definition node_close_text :: string where
  \<open>node_close_text = ''</node>\<newline>''\<close>

definition method_close_text :: string where
  \<open>method_close_text = ''    </method>\<newline>''\<close>

definition signal_close_text :: string where
  \<open>signal_close_text = ''    </signal>\<newline>''\<close>

definition interface_close_text :: string where
  \<open>interface_close_text = ''  </interface>\<newline>''\<close>

text \<open>The loops over the arguments, methods, signals, properties and interfaces.\<close>

fun method_args_xml :: "NihDBusArg list \<Rightarrow> build \<Rightarrow> build + build" where
  "method_args_xml [] b = Inr b"
| "method_args_xml (arg # args) b =
     then_do (nih_strcat_sprintf (method_arg_text arg) b) (method_args_xml args)"

fun methods_xml :: "NihDBusMethod list \<Rightarrow> build \<Rightarrow> build + build" where
  "methods_xml [] b = Inr b"
| "methods_xml (method # ms) b =
     then_do
       (then_do
          (then_do (nih_strcat_sprintf (method_open_text (method_name method)) b)
             (method_args_xml (method_args method)))
          (nih_strcat method_close_text))
       (methods_xml ms)"

fun signal_args_xml :: "NihDBusArg list \<Rightarrow> build \<Rightarrow> build + build" where
  "signal_args_xml [] b = Inr b"
| "signal_args_xml (arg # args) b =
     then_do (nih_strcat_sprintf (signal_arg_text arg) b) (signal_args_xml args)"

fun signals_xml :: "NihDBusSignal list \<Rightarrow> build \<Rightarrow> build + build" where
  "signals_xml [] b = Inr b"
| "signals_xml (signal # ss) b =
     then_do
       (then_do
          (then_do (nih_strcat_sprintf (signal_open_text (signal_name signal)) b)
             (signal_args_xml (signal_args signal)))
          (nih_strcat signal_close_text))
       (signals_xml ss)"

fun properties_xml :: "NihDBusProperty list \<Rightarrow> build \<Rightarrow> build + build" where
  "properties_xml [] b = Inr b"
| "properties_xml (property # ps) b =
     then_do (nih_strcat_sprintf (property_text property) (b\<lparr>have_props := True\<rparr>))
       (properties_xml ps)"

fun interfaces_xml :: "NihDBusInterface list \<Rightarrow> build \<Rightarrow> build + build" where
  "interfaces_xml [] b = Inr b"
| "interfaces_xml (interface # is) b =
     then_do
       (then_do
          (then_do
             (then_do
                (then_do (nih_strcat_sprintf (interface_open_text (interface_name interface)) b)
                   (methods_xml (methods interface)))
                (signals_xml (signals interface)))
             (properties_xml (properties interface)))
          (nih_strcat interface_close_text))
       (interfaces_xml is)"

fun children_xml :: "string list \<Rightarrow> build \<Rightarrow> build + build" where
  "children_xml [] b = Inr b"
| "children_xml (child # cs) b =
     then_do (nih_strcat_sprintf (child_node_text child) b) (children_xml cs)"

text \<open>The function up to the call of \<open>dbus_connection_list_registered\<close>.\<close>

definition introspect_head :: "NihDBusObject \<Rightarrow> build \<Rightarrow> build + build" where
  "introspect_head object b =
     then_do
       (then_do
          (then_do (nih_strcat_sprintf (node_open_text (object_path object)) b)
             (nih_strcat_sprintf introspectable_text))
          (interfaces_xml (interfaces object)))
       (\<lambda>b. if have_props b then nih_strcat_sprintf properties_interface_text b else Inr b)"

text \<open>
  What the caller and the peer can observe of one call: the resources the function
  allocated and has not released (its references), whether it released something it
  did not hold, and the bodies of the replies it queued on the connection.
\<close>

datatype resource = XmlString | ChildArray | ReplyMessage

record effects =
  live :: "resource list"
  bad_release :: bool
  sent :: "string list"

definition acquire :: "resource \<Rightarrow> effects \<Rightarrow> effects" where
  "acquire r s = s\<lparr>live := r # live s\<rparr>"

definition release :: "resource \<Rightarrow> effects \<Rightarrow> effects" where
  "release r s =
     (if r \<in> set (live s) then s\<lparr>live := remove1 r (live s)\<rparr> else s\<lparr>bad_release := True\<rparr>)"

text \<open>
  The code at the label \<open>error\<close>, from the locals \<open>xml\<close>, \<open>children\<close> and \<open>reply\<close> (each NULL
  or a pointer).
\<close>

definition introspect_error ::
    "string option \<Rightarrow> string list option \<Rightarrow> string list option \<Rightarrow> effects
     \<Rightarrow> DBusHandlerResult \<times> effects" where
  "introspect_error xml_ptr children reply s =
     (let s1 = (if reply \<noteq> None then release ReplyMessage s else s);
          s2 = (if children \<noteq> None then release ChildArray s1 else s1);
          s3 = (if xml_ptr \<noteq> None then release XmlString s2 else s2)
      in (DBUS_HANDLER_RESULT_NEED_MEMORY, s3))"

text \<open>
  The end of the function: \<open>dbus_message_new_method_return\<close>, \<open>dbus_message_append_args\<close>
  and \<open>dbus_connection_send\<close>, each of which can fail, and the releases after the send.
\<close>

definition introspect_reply :: "build \<Rightarrow> effects \<Rightarrow> DBusHandlerResult \<times> effects" where
  "introspect_reply b s =
     (if mem_left b = 0 then introspect_error (Some (xml b)) None None s
      else
        let s1 = acquire ReplyMessage s in
        if mem_left b - 1 = 0 then introspect_error (Some (xml b)) None (Some []) s1
        else if mem_left b - 2 = 0 then introspect_error (Some (xml b)) None (Some [xml b]) s1
        else
          let s2 = s1\<lparr>sent := sent s1 @ [xml b]\<rparr>;
              s3 = release ReplyMessage s2;
              s4 = release XmlString s3
          in (DBUS_HANDLER_RESULT_HANDLED, s4))"

text \<open>
  \<open>nih_dbus_object_introspect\<close>. \<open>budget\<close>: the memory at the start; \<open>listed\<close>: the names
  \<open>dbus_connection_list_registered\<close> gives for the path when it succeeds.
\<close>

definition nih_dbus_object_introspect ::
    "nat \<Rightarrow> string list \<Rightarrow> NihDBusObject \<Rightarrow> DBusHandlerResult \<times> effects" where
  "nih_dbus_object_introspect budget listed object =
     (let s0 = \<lparr>live = [], bad_release = False, sent = []\<rparr> in
      if budget = 0 then introspect_error None None None s0
      else
        let s1 = acquire XmlString s0;
            b0 = \<lparr>xml = DBUS_INTROSPECT_1_0_XML_DOCTYPE_DECL_NODE, have_props = False,
                  mem_left = budget - 1\<rparr>
        in
          case introspect_head object b0 of
            Inl b \<Rightarrow> introspect_error (Some (xml b)) None None s1
          | Inr b \<Rightarrow>
              if mem_left b = 0 then introspect_error (Some (xml b)) None None s1
              else
                let s2 = acquire ChildArray s1 in
                case then_do (children_xml listed (b\<lparr>mem_left := mem_left b - 1\<rparr>))
                       (nih_strcat node_close_text) of
                  Inl b' \<Rightarrow> introspect_error (Some (xml b')) (Some listed) None s2
                | Inr b' \<Rightarrow> introspect_reply b' (release ChildArray s2))"

subsection \<open>The document as the specification words it\<close>

text \<open>
  Section 4.6 of the specification: the doctype declaration, the root node named by the
  path of the object, the Introspectable interface, each interface of the table in
  table order with its methods, signals and properties, the Properties interface iff any
  property was declared in the table, and one node for every child path.
\<close>

definition spec_method_xml :: "NihDBusMethod \<Rightarrow> string" where
  "spec_method_xml method =
     method_open_text (method_name method)
     @ concat (map method_arg_text (method_args method)) @ method_close_text"

definition spec_signal_xml :: "NihDBusSignal \<Rightarrow> string" where
  "spec_signal_xml signal =
     signal_open_text (signal_name signal)
     @ concat (map signal_arg_text (signal_args signal)) @ signal_close_text"

definition spec_interface_xml :: "NihDBusInterface \<Rightarrow> string" where
  "spec_interface_xml interface =
     interface_open_text (interface_name interface)
     @ concat (map spec_method_xml (methods interface))
     @ concat (map spec_signal_xml (signals interface))
     @ concat (map property_text (properties interface))
     @ interface_close_text"

definition declares_property :: "NihDBusObject \<Rightarrow> bool" where
  "declares_property object = list_ex (\<lambda>interface. properties interface \<noteq> []) (interfaces object)"

definition spec_introspection_xml :: "NihDBusObject \<Rightarrow> string list \<Rightarrow> string" where
  "spec_introspection_xml object listed =
     DBUS_INTROSPECT_1_0_XML_DOCTYPE_DECL_NODE
     @ node_open_text (object_path object)
     @ introspectable_text
     @ concat (map spec_interface_xml (interfaces object))
     @ (if declares_property object then properties_interface_text else [])
     @ concat (map child_node_text listed)
     @ node_close_text"

text \<open>The number of calls that can fail which a complete run makes.\<close>

definition method_calls :: "NihDBusMethod \<Rightarrow> nat" where
  "method_calls method = 2 + length (method_args method)"

definition signal_calls :: "NihDBusSignal \<Rightarrow> nat" where
  "signal_calls signal = 2 + length (signal_args signal)"

definition interface_calls :: "NihDBusInterface \<Rightarrow> nat" where
  "interface_calls interface =
     2 + sum_list (map method_calls (methods interface))
       + sum_list (map signal_calls (signals interface))
       + length (properties interface)"

definition head_calls :: "NihDBusObject \<Rightarrow> nat" where
  "head_calls object =
     2 + sum_list (map interface_calls (interfaces object))
       + (if declares_property object then 1 else 0)"

definition introspect_calls :: "NihDBusObject \<Rightarrow> string list \<Rightarrow> nat" where
  "introspect_calls object listed = 1 + head_calls object + 1 + length listed + 1 + 3"

text \<open>
  A step of the assembly that makes \<open>n\<close> calls, appends \<open>text\<close> and may set the flag:
  with memory for \<open>n\<close> calls it continues with this result, with less it jumps to \<open>error\<close>.
\<close>

definition emits :: "(build \<Rightarrow> build + build) \<Rightarrow> nat \<Rightarrow> string \<Rightarrow> bool \<Rightarrow> bool" where
  "emits f n text flag =
     (\<forall>b. (n \<le> mem_left b \<longrightarrow>
             f b = Inr (b\<lparr>xml := xml b @ text, have_props := have_props b \<or> flag,
                           mem_left := mem_left b - n\<rparr>))
        \<and> (mem_left b < n \<longrightarrow> (\<exists>b'. f b = Inl b')))"

section \<open>Dispatch: \<open>nih_dbus_object_message\<close>\<close>

text \<open>
  The wrapper \<open>NihDBusMessage\<close> a marshaller receives, and what a dispatch does besides
  returning: taking and dropping a reference of the message, calling a marshaller with
  the object and the wrapper, and freeing the wrapper.
\<close>

record NihDBusMessage =
  wrapper_conn :: nat
  wrapper_message :: DBusMessage

datatype dispatch_event =
  MessageRef
| MarshallerCalled nat NihDBusObject NihDBusMessage
| MessageUnref
| WrapperFreed

text \<open>
  \<open>call\<close> gives the result the marshaller with a given identity returns for an object
  and a wrapper; \<open>mem\<close>: the allocation of the wrapper succeeds. The inner loop returns
  \<open>None\<close> when it ends without a match. The table holds no NULL marshaller (the
  assertion of the loop holds by the type of the table).
\<close>

fun methods_dispatch ::
    "(nat \<Rightarrow> NihDBusObject \<Rightarrow> NihDBusMessage \<Rightarrow> DBusHandlerResult) \<Rightarrow> bool \<Rightarrow> DBusMessage
     \<Rightarrow> NihDBusObject \<Rightarrow> string \<Rightarrow> NihDBusMethod list
     \<Rightarrow> (DBusHandlerResult \<times> dispatch_event list) option" where
  "methods_dispatch call mem message object name [] = None"
| "methods_dispatch call mem message object name (method # ms) =
     (if dbus_message_is_method_call message name (method_name method) then
        (if \<not> mem then Some (DBUS_HANDLER_RESULT_NEED_MEMORY, [])
         else
           let msg = \<lparr>wrapper_conn = object_conn object, wrapper_message = message\<rparr> in
           Some (call (marshaller method) object msg,
                 [MessageRef, MarshallerCalled (marshaller method) object msg,
                  MessageUnref, WrapperFreed]))
      else methods_dispatch call mem message object name ms)"

fun interfaces_dispatch ::
    "(nat \<Rightarrow> NihDBusObject \<Rightarrow> NihDBusMessage \<Rightarrow> DBusHandlerResult) \<Rightarrow> bool \<Rightarrow> DBusMessage
     \<Rightarrow> NihDBusObject \<Rightarrow> NihDBusInterface list
     \<Rightarrow> DBusHandlerResult \<times> dispatch_event list" where
  "interfaces_dispatch call mem message object [] = (DBUS_HANDLER_RESULT_NOT_YET_HANDLED, [])"
| "interfaces_dispatch call mem message object (interface # is) =
     (case methods_dispatch call mem message object (interface_name interface)
             (methods interface) of
        Some r \<Rightarrow> r
      | None \<Rightarrow> interfaces_dispatch call mem message object is)"

definition no_effects :: effects where
  "no_effects = \<lparr>live = [], bad_release = False, sent = []\<rparr>"

text \<open>
  \<open>nih_dbus_object_message\<close>. The library calls it with the connection the path was
  registered on, which is the connection of the object. \<open>budget\<close> is the memory of the
  call, \<open>listed\<close> the child paths the library knows. The result, the events of the
  dispatch, and the effects of the introspection.
\<close>

definition nih_dbus_object_message ::
    "(nat \<Rightarrow> NihDBusObject \<Rightarrow> NihDBusMessage \<Rightarrow> DBusHandlerResult) \<Rightarrow> nat \<Rightarrow> string list
     \<Rightarrow> DBusMessage \<Rightarrow> NihDBusObject \<Rightarrow> DBusHandlerResult \<times> dispatch_event list \<times> effects" where
  "nih_dbus_object_message call budget listed message object =
     (if dbus_message_is_method_call message DBUS_INTERFACE_INTROSPECTABLE ''Introspect''
      then (case nih_dbus_object_introspect budget listed object of (r, s) \<Rightarrow> (r, [], s))
      else if dbus_message_is_method_call message DBUS_INTERFACE_PROPERTIES ''Get''
      then (DBUS_HANDLER_RESULT_NOT_YET_HANDLED, [], no_effects)
      else if dbus_message_is_method_call message DBUS_INTERFACE_PROPERTIES ''Set''
      then (DBUS_HANDLER_RESULT_NOT_YET_HANDLED, [], no_effects)
      else if dbus_message_is_method_call message DBUS_INTERFACE_PROPERTIES ''GetAll''
      then (DBUS_HANDLER_RESULT_NOT_YET_HANDLED, [], no_effects)
      else
        (case interfaces_dispatch call (budget \<noteq> 0) message object (interfaces object) of
           (r, events) \<Rightarrow> (r, events, no_effects)))"

subsection \<open>The dispatch as the specification words it\<close>

text \<open>
  Section 4.5 of the specification: the (interface, method) pairs of the table in table
  order, and the first of them whose names match the message.
\<close>

definition table_pairs :: "NihDBusInterface list \<Rightarrow> (NihDBusInterface \<times> NihDBusMethod) list" where
  "table_pairs is = concat (map (\<lambda>interface. map (Pair interface) (methods interface)) is)"

definition first_match ::
    "DBusMessage \<Rightarrow> NihDBusInterface list \<Rightarrow> (NihDBusInterface \<times> NihDBusMethod) option" where
  "first_match message is =
     find (\<lambda>(interface, method).
             dbus_message_is_method_call message (interface_name interface) (method_name method))
          (table_pairs is)"

definition is_introspect :: "DBusMessage \<Rightarrow> bool" where
  "is_introspect message =
     dbus_message_is_method_call message DBUS_INTERFACE_INTROSPECTABLE ''Introspect''"

definition is_properties :: "DBusMessage \<Rightarrow> bool" where
  "is_properties message =
     (dbus_message_is_method_call message DBUS_INTERFACE_PROPERTIES ''Get''
      \<or> dbus_message_is_method_call message DBUS_INTERFACE_PROPERTIES ''Set''
      \<or> dbus_message_is_method_call message DBUS_INTERFACE_PROPERTIES ''GetAll'')"

text \<open>The events of a dispatch to a method of an object.\<close>

definition marshal_events :: "NihDBusObject \<Rightarrow> DBusMessage \<Rightarrow> NihDBusMethod \<Rightarrow> dispatch_event list" where
  "marshal_events object message method =
     [MessageRef,
      MarshallerCalled (marshaller method) object
        \<lparr>wrapper_conn = object_conn object, wrapper_message = message\<rparr>,
      MessageUnref, WrapperFreed]"

subsection \<open>An object and messages for the examples\<close>

definition example_object :: NihDBusObject where
  "example_object =
     \<lparr>object_conn = 0, object_path = ''/a'',
      interfaces =
        [\<lparr>interface_name = ''com.example.First'',
          methods = [\<lparr>method_name = ''Peek'', marshaller = 1,
                      method_args = [\<lparr>arg_name = ''x'', arg_type = ''s'',
                                      arg_dir = NIH_DBUS_ARG_IN\<rparr>]\<rparr>],
          signals = [], properties = []\<rparr>,
         \<lparr>interface_name = ''com.example.Second'',
          methods = [\<lparr>method_name = ''Peek'', marshaller = 2, method_args = []\<rparr>,
                     \<lparr>method_name = ''Poke'', marshaller = 3, method_args = []\<rparr>],
          signals = [\<lparr>signal_name = ''Poked'', signal_args = []\<rparr>],
          properties = [\<lparr>property_name = ''size'', property_type = ''u'',
                         property_access = NIH_DBUS_READ\<rparr>]\<rparr>]\<rparr>"

definition method_call :: "string option \<Rightarrow> string \<Rightarrow> DBusMessage" where
  "method_call interface member =
     \<lparr>msg_type = DBUS_MESSAGE_TYPE_METHOD_CALL, msg_path = Some ''/a'',
      msg_interface = interface, msg_member = Some member\<rparr>"

text \<open>A marshaller that handles every call.\<close>

definition always_handled :: "nat \<Rightarrow> NihDBusObject \<Rightarrow> NihDBusMessage \<Rightarrow> DBusHandlerResult" where
  "always_handled m object msg = DBUS_HANDLER_RESULT_HANDLED"

section \<open>The names printed in the document\<close>

text \<open>
  The strings of an object that \<open>nih_dbus_object_introspect\<close> prints between double
  quotes outside the property elements: the path, the names of the interfaces, methods
  and signals, the names and types of the arguments, and the child names.
\<close>

definition arg_strings :: "NihDBusArg \<Rightarrow> string list" where
  "arg_strings arg = [arg_name arg, arg_type arg]"

definition method_strings :: "NihDBusMethod \<Rightarrow> string list" where
  "method_strings method = method_name method # concat (map arg_strings (method_args method))"

definition signal_strings :: "NihDBusSignal \<Rightarrow> string list" where
  "signal_strings signal = signal_name signal # concat (map arg_strings (signal_args signal))"

definition interface_strings :: "NihDBusInterface \<Rightarrow> string list" where
  "interface_strings interface =
     interface_name interface
     # concat (map method_strings (methods interface))
     @ concat (map signal_strings (signals interface))"

definition printed_strings :: "NihDBusObject \<Rightarrow> string list \<Rightarrow> string list" where
  "printed_strings object listed =
     object_path object # concat (map interface_strings (interfaces object)) @ listed"

text \<open>
  A string is plain when it holds no double quote and is not the name of the Properties
  interface; \<open>plain_names\<close>: every printed string of the object is plain.
\<close>

definition double_quote :: char where
  "double_quote = CHR 0x22"

definition plain :: "string \<Rightarrow> bool" where
  "plain s = (double_quote \<notin> set s \<and> s \<noteq> DBUS_INTERFACE_PROPERTIES)"

definition plain_names :: "NihDBusObject \<Rightarrow> string list \<Rightarrow> bool" where
  "plain_names object listed = list_all plain (printed_strings object listed)"

text \<open>
  The name of the Properties interface between double quotes, as it stands in the
  Properties block. A text is \<open>unmarked\<close> when this does not occur in it and it does not
  begin with a character of it.
\<close>

definition properties_marker :: string where
  "properties_marker = double_quote # DBUS_INTERFACE_PROPERTIES @ [double_quote]"

definition unmarked :: "string \<Rightarrow> bool" where
  "unmarked s = (\<not> sublist properties_marker s \<and> (s = [] \<or> hd s \<notin> set properties_marker))"

subsection \<open>Objects for the examples of the introspection\<close>

text \<open>
  An object with a method with an input and an output argument, a signal with an
  argument, and a property of each access mode.
\<close>

definition sample_object :: NihDBusObject where
  "sample_object =
     \<lparr>object_conn = 0, object_path = ''/com/example/sample'',
      interfaces =
        [\<lparr>interface_name = ''com.example.Sample'',
          methods = [\<lparr>method_name = ''Resize'', marshaller = 1,
                      method_args = [\<lparr>arg_name = ''width'', arg_type = ''u'',
                                      arg_dir = NIH_DBUS_ARG_IN\<rparr>,
                                     \<lparr>arg_name = ''done'', arg_type = ''b'',
                                      arg_dir = NIH_DBUS_ARG_OUT\<rparr>]\<rparr>],
          signals = [\<lparr>signal_name = ''Resized'',
                      signal_args = [\<lparr>arg_name = ''width'', arg_type = ''u'',
                                      arg_dir = NIH_DBUS_ARG_OUT\<rparr>]\<rparr>],
          properties = [\<lparr>property_name = ''size'', property_type = ''u'',
                         property_access = NIH_DBUS_READ\<rparr>,
                        \<lparr>property_name = ''colour'', property_type = ''s'',
                         property_access = NIH_DBUS_WRITE\<rparr>,
                        \<lparr>property_name = ''title'', property_type = ''s'',
                         property_access = NIH_DBUS_READWRITE\<rparr>]\<rparr>]\<rparr>"

text \<open>
  The characters the format strings of \<open>nih_dbus_object_introspect\<close> print for
  \<open>sample_object\<close> with the one child \<open>child\<close>, line by line.
\<close>

definition sample_document :: string where
  \<open>sample_document =
     ''<!DOCTYPE node PUBLIC "-//freedesktop//DTD D-BUS Object Introspection 1.0//EN"\<newline>''
     @ ''"http://www.freedesktop.org/standards/dbus/1.0/introspect.dtd">\<newline>''
     @ ''<node name="/com/example/sample">\<newline>''
     @ ''  <interface name="org.freedesktop.DBus.Introspectable">\<newline>''
     @ ''    <method name="Introspect">\<newline>''
     @ ''      <arg name="data" type="s" direction="out"/>\<newline>''
     @ ''    </method>\<newline>''
     @ ''  </interface>\<newline>''
     @ ''  <interface name="com.example.Sample">\<newline>''
     @ ''    <method name="Resize">\<newline>''
     @ ''      <arg name="width" type="u" direction="in"/>\<newline>''
     @ ''      <arg name="done" type="b" direction="out"/>\<newline>''
     @ ''    </method>\<newline>''
     @ ''    <signal name="Resized">\<newline>''
     @ ''      <arg name="width" type="u"/>\<newline>''
     @ ''    </signal>\<newline>''
     @ ''    <property name="size" type="u" access="read"/>\<newline>''
     @ ''    <property name="colour" type="s" access="write"/>\<newline>''
     @ ''    <property name="title" type="s" access="readwrite"/>\<newline>''
     @ ''  </interface>\<newline>''
     @ ''  <interface name="org.freedesktop.DBus.Properties">\<newline>''
     @ ''    <method name="Get">\<newline>''
     @ ''      <arg name="interface_name" type="s" direction="in"/>\<newline>''
     @ ''      <arg name="property_name" type="s" direction="in"/>\<newline>''
     @ ''      <arg name="value" type="v" direction="out"/>\<newline>''
     @ ''    </method>\<newline>''
     @ ''    <method name="Set">\<newline>''
     @ ''      <arg name="interface_name" type="s" direction="in"/>\<newline>''
     @ ''      <arg name="property_name" type="s" direction="in"/>\<newline>''
     @ ''      <arg name="value" type="v" direction="in"/>\<newline>''
     @ ''    </method>\<newline>''
     @ ''    <method name="GetAll">\<newline>''
     @ ''      <arg name="interface_name" type="s" direction="in"/>\<newline>''
     @ ''      <arg name="props" type="a{sv}" direction="out"/>\<newline>''
     @ ''    </method>\<newline>''
     @ ''  </interface>\<newline>''
     @ ''  <node name="child"/>\<newline>''
     @ ''</node>\<newline>''\<close>

text \<open>
  An object with no property whose table itself declares an interface with the name
  and the methods of the Properties interface.
\<close>

definition properties_table_object :: NihDBusObject where
  "properties_table_object =
     \<lparr>object_conn = 0, object_path = ''/a'',
      interfaces =
        [\<lparr>interface_name = DBUS_INTERFACE_PROPERTIES,
          methods =
            [\<lparr>method_name = ''Get'', marshaller = 1,
              method_args = [\<lparr>arg_name = ''interface_name'', arg_type = ''s'',
                              arg_dir = NIH_DBUS_ARG_IN\<rparr>,
                             \<lparr>arg_name = ''property_name'', arg_type = ''s'',
                              arg_dir = NIH_DBUS_ARG_IN\<rparr>,
                             \<lparr>arg_name = ''value'', arg_type = ''v'',
                              arg_dir = NIH_DBUS_ARG_OUT\<rparr>]\<rparr>,
             \<lparr>method_name = ''Set'', marshaller = 2,
              method_args = [\<lparr>arg_name = ''interface_name'', arg_type = ''s'',
                              arg_dir = NIH_DBUS_ARG_IN\<rparr>,
                             \<lparr>arg_name = ''property_name'', arg_type = ''s'',
                              arg_dir = NIH_DBUS_ARG_IN\<rparr>,
                             \<lparr>arg_name = ''value'', arg_type = ''v'',
                              arg_dir = NIH_DBUS_ARG_IN\<rparr>]\<rparr>,
             \<lparr>method_name = ''GetAll'', marshaller = 3,
              method_args = [\<lparr>arg_name = ''interface_name'', arg_type = ''s'',
                              arg_dir = NIH_DBUS_ARG_IN\<rparr>,
                             \<lparr>arg_name = ''props'', arg_type = ''a{sv}'',
                              arg_dir = NIH_DBUS_ARG_OUT\<rparr>]\<rparr>],
          signals = [], properties = []\<rparr>]\<rparr>"

section \<open>Path encoding: proofs\<close>

lemma char_eq_nat: "(c = d) = ((of_char c :: nat) = of_char d)"
  by simp

lemma spec_alnum_ranges:
  "spec_alnum c = (let n = of_char c :: nat in 97 \<le> n \<and> n \<le> 122 \<or> 65 \<le> n \<and> n \<le> 90 \<or> 48 \<le> n \<and> n \<le> 57)"
  unfolding spec_alnum_def Let_def
  apply (simp add: char_eq_nat del: of_char_eq_iff)
  apply arith
  done

lemma is_alnum_ranges:
  "is_alnum sc c = (let n = of_char c :: nat in 97 \<le> n \<and> n \<le> 122 \<or> 65 \<le> n \<and> n \<le> 90 \<or> 48 \<le> n \<and> n \<le> 57)"
proof -
  have lt: "(of_char c :: nat) < 256" by simp
  have i: "(of_char c :: int) = int (of_char c :: nat)" by (simp add: of_nat_of_char)
  show ?thesis
    unfolding is_alnum_def char_to_int_def Let_def i using lt by (auto simp del: nat_of_char_less_256)
qed

lemma is_alnum_spec: "is_alnum sc c = spec_alnum c"
  by (simp only: is_alnum_ranges spec_alnum_ranges)

lemma hex_digit_in: "hex_digit d \<in> set ''0123456789abcdef''"
  unfolding hex_digit_def by (rule nth_mem) simp

lemma hex_digit_alnum: "spec_alnum (hex_digit d)"
  using hex_digit_in [of d] by (auto simp: spec_alnum_def)

lemma spec_alnum_not_NUL: "spec_alnum c \<Longrightarrow> c \<noteq> NUL"
  by (auto simp: spec_alnum_def NUL_def)

lemma of_char_int_nat: "(of_char c :: int) = int (of_char c)"
  by (simp add: of_nat_of_char)

lemma format_02x_byte:
  assumes "n < 256"
  shows "format_02x (int n) = [hex_digit (n div 16), hex_digit (n mod 16)]"
proof -
  have m: "int n mod 2 ^ 32 = int n" using assms by simp
  show ?thesis
  proof (cases "n < 16")
    case True
    then have "hex (int n) = [hex_digit n]" by (simp add: hex.simps)
    moreover have "hex_digit 0 = CHR ''0''" by (simp add: hex_digit_def)
    ultimately show ?thesis using True unfolding format_02x_def m Let_def by simp
  next
    case False
    then have d: "n div 16 < 16" using assms by simp
    have dm: "int n div 16 = int (n div 16)" "nat (int n mod 16) = n mod 16"
      by (simp_all add: zdiv_int nat_mod_distrib)
    have "hex (int n) = hex (int (n div 16)) @ [hex_digit (n mod 16)]"
      using False by (subst hex.simps) (simp add: dm)
    moreover have "hex (int (n div 16)) = [hex_digit (n div 16)]"
      using d by (subst hex.simps) simp
    ultimately show ?thesis unfolding format_02x_def m Let_def by simp
  qed
qed

lemma char_to_int_seven:
  "sc \<longrightarrow> (of_char c :: nat) < 128 \<Longrightarrow> char_to_int sc c = int (of_char c)"
  unfolding char_to_int_def of_char_int_nat by auto

lemma poke_Inr: "i < length b \<Longrightarrow> poke b i c = Inr (take i b @ Some c # drop (Suc i) b)"
  by (simp add: poke_def upd_conv_take_nth_drop)

lemma poke_bytes_Inr:
  "i + length cs \<le> length b \<Longrightarrow>
   poke_bytes b i cs = Inr (take i b @ map Some cs @ drop (i + length cs) b)"
proof (induction cs arbitrary: b i)
  case Nil
  then show ?case by simp
next
  case (Cons c cs)
  let ?b = "take i b @ Some c # drop (Suc i) b"
  have i: "i < length b" using Cons.prems by simp
  have l: "length ?b = length b" using i by simp
  have t: "take (Suc i) ?b = take i b @ [Some c]" using i by simp
  have d: "drop (Suc i + length cs) ?b = drop (i + length (c # cs)) b"
    using i by (simp add: add.commute)
  have "poke_bytes ?b (Suc i) cs = Inr (take (Suc i) ?b @ map Some cs @ drop (Suc i + length cs) ?b)"
    by (rule Cons.IH) (use Cons.prems l in simp)
  then have "poke_bytes ?b (Suc i) cs = Inr (take i b @ map Some (c # cs) @ drop (i + length (c # cs)) b)"
    unfolding t d by simp
  then show ?case unfolding poke_bytes.simps poke_Inr [OF i] by simp
qed

lemma shiftb_simps [simp]: "shiftb pre (Inl e) = Inl e" "shiftb pre (Inr b) = Inr (pre @ b)"
  by (simp_all add: shiftb_def)

lemma shift_simps [simp]:
  "shift pre (Inl e) = Inl e" "shift pre (Inr (b, l)) = Inr (pre @ b, length pre + l)"
  by (simp_all add: shift_def)

lemma poke_append: "poke (pre @ b) (length pre + i) c = shiftb pre (poke b i c)"
  by (simp add: poke_def list_update_append)

lemma poke_bytes_append:
  "poke_bytes (pre @ b) (length pre + i) cs = shiftb pre (poke_bytes b i cs)"
proof (induction cs arbitrary: b i)
  case Nil
  then show ?case by simp
next
  case (Cons c cs)
  show ?case
  proof (cases "poke b i c")
    case (Inl e)
    then show ?thesis by (simp add: poke_append)
  next
    case (Inr b')
    then show ?thesis using Cons.IH [of b' "Suc i"] by (simp add: poke_append)
  qed
qed

lemma copy_element_append:
  "copy_element sc s (pre @ b) (length pre + len) = shift pre (copy_element sc s b len)"
proof (induction s arbitrary: b len)
  case Nil
  then show ?case by simp
next
  case (Cons c s)
  consider (nul) "c = NUL" | (plain) "c \<noteq> NUL" "is_alnum sc c" | (esc) "c \<noteq> NUL" "\<not> is_alnum sc c"
    by blast
  then show ?case
  proof cases
    case nul
    then show ?thesis by simp
  next
    case plain
    show ?thesis
    proof (cases "poke b len c")
      case (Inl e)
      then show ?thesis using plain by (simp add: poke_append)
    next
      case (Inr b')
      then show ?thesis using plain Cons.IH [of b' "Suc len"] by (simp add: poke_append)
    qed
  next
    case esc
    show ?thesis
    proof (cases "poke b len (CHR ''_'')")
      case (Inl e)
      then show ?thesis using esc by (simp add: poke_append)
    next
      case b1: (Inr b')
      show ?thesis
      proof (cases "sprintf_02x b' (Suc len) (char_to_int sc c)")
        case (Inl e)
        then show ?thesis
          using esc b1 poke_bytes_append [of pre b' "Suc len"]
          by (simp add: poke_append sprintf_02x_def)
      next
        case (Inr b'')
        then show ?thesis
          using esc b1 poke_bytes_append [of pre b' "Suc len"] Cons.IH [of b'' "Suc (Suc (Suc len))"]
          by (simp add: poke_append sprintf_02x_def)
      qed
    qed
  qed
qed

lemma copy_elements_append:
  "copy_elements sc args (pre @ b) (length pre + len) = shift pre (copy_elements sc args b len)"
proof (induction args arbitrary: b len)
  case Nil
  then show ?case by simp
next
  case (Cons a args)
  show ?case
  proof (cases "poke b len (CHR ''/'')")
    case (Inl e)
    then show ?thesis by (simp add: poke_append)
  next
    case b1: (Inr b')
    show ?thesis
    proof (cases "copy_element sc a b' (Suc len)")
      case (Inl e)
      then show ?thesis
        using b1 copy_element_append [of sc a pre b' "Suc len"] by (simp add: poke_append)
    next
      case (Inr r)
      obtain b'' l where r: "r = (b'', l)" by (cases r)
      show ?thesis
        using b1 Inr r copy_element_append [of sc a pre b' "Suc len"] Cons.IH [of b'' l]
        by (simp add: poke_append)
    qed
  qed
qed

lemma c_str_no_NUL: "NUL \<notin> set (c_str s)"
  unfolding c_str_def by (induction s) auto

lemma read_c_str_append:
  "NUL \<notin> set r \<Longrightarrow>
   read_c_str (map Some r @ b) = (case read_c_str b of Inl e \<Rightarrow> Inl e | Inr s \<Rightarrow> Inr (r @ s))"
  by (induction r) (auto split: sum.splits)

lemma strcpy_alloc:
  "strcpy (nih_alloc (strlen rt + k + 1)) 0 rt =
     Inr (map Some (c_str rt) @ Some NUL # replicate k None)"
proof -
  let ?cs = "c_str rt @ [NUL]"
  have "poke_bytes (replicate (strlen rt + k + 1) None) 0 ?cs =
        Inr (take 0 (replicate (strlen rt + k + 1) None) @ map Some ?cs
              @ drop (0 + length ?cs) (replicate (strlen rt + k + 1) None))"
    by (rule poke_bytes_Inr) (simp add: strlen_def)
  then show ?thesis by (simp add: strcpy_def nih_alloc_def strlen_def)
qed

lemma nih_dbus_path_unfold:
  "nih_dbus_path sc True rt args =
     (case copy_elements sc args
             (map Some (c_str rt) @ Some NUL # replicate (path_len sc args) None) (strlen rt) of
        Inl e \<Rightarrow> Inl e
      | Inr (p, l) \<Rightarrow> (case poke p l NUL of Inl e \<Rightarrow> Inl e | Inr p' \<Rightarrow> read_c_str p'))"
  unfolding nih_dbus_path_def Let_def strcpy_alloc by simp

lemma nih_dbus_path_root_True:
  "nih_dbus_path sc True rt args =
     (case nih_dbus_path sc True [] args of Inl e \<Rightarrow> Inl e | Inr rest \<Rightarrow> Inr (c_str rt @ rest))"
proof -
  let ?k = "path_len sc args"
  let ?pre = "map Some (c_str rt) :: block"
  let ?b0 = "Some NUL # replicate ?k None :: block"
  have e: "nih_dbus_path sc True [] args =
      (case copy_elements sc args ?b0 0 of
        Inl e \<Rightarrow> Inl e
      | Inr (p, l) \<Rightarrow> (case poke p l NUL of Inl e \<Rightarrow> Inl e | Inr p' \<Rightarrow> read_c_str p'))"
    unfolding nih_dbus_path_unfold by (simp add: c_str_def strlen_def)
  have c: "copy_elements sc args (?pre @ ?b0) (strlen rt) = shift ?pre (copy_elements sc args ?b0 0)"
    using copy_elements_append [of sc args ?pre ?b0 0] by (simp add: strlen_def)
  have rd: "\<And>b. read_c_str (?pre @ b) = (case read_c_str b of Inl e \<Rightarrow> Inl e | Inr s \<Rightarrow> Inr (c_str rt @ s))"
    by (rule read_c_str_append) (rule c_str_no_NUL)
  show ?thesis
  proof (cases "copy_elements sc args ?b0 0")
    case (Inl x)
    then show ?thesis
      unfolding nih_dbus_path_unfold [of sc rt] e c by simp
  next
    case (Inr pl)
    obtain b' l where pl: "pl = (b', l)" by (cases pl)
    have p: "poke (?pre @ b') (length ?pre + l) NUL = shiftb ?pre (poke b' l NUL)"
      by (rule poke_append)
    show ?thesis
    proof (cases "poke b' l NUL")
      case (Inl x)
      then show ?thesis
        using p unfolding nih_dbus_path_unfold [of sc rt] e c Inr pl by simp
    next
      case b2: (Inr b'')
      then show ?thesis
        using p rd [of b''] unfolding nih_dbus_path_unfold [of sc rt] e c Inr pl by simp
    qed
  qed
qed

lemma nih_dbus_path_root:
  "nih_dbus_path sc mem rt args =
     (case nih_dbus_path sc mem [] args of Inl e \<Rightarrow> Inl e | Inr rest \<Rightarrow> Inr (c_str rt @ rest))"
proof (cases mem)
  case False
  then show ?thesis by (simp add: nih_dbus_path_def)
next
  case True
  then have "mem = True" by simp
  then show ?thesis using nih_dbus_path_root_True [of sc rt args] by simp
qed

lemma nih_dbus_path_no_args: "nih_dbus_path sc True rt [] = Inr (c_str rt)"
  unfolding nih_dbus_path_unfold
  by (simp add: poke_def strlen_def list_update_append read_c_str_append c_str_no_NUL)

lemma c_str_Cons: "c_str (c # s) = (if c = NUL then [] else c # c_str s)"
  by (simp add: c_str_def)

lemma spec_encode_byte_no_NUL: "NUL \<notin> set (spec_encode_byte c)"
proof -
  have h: "NUL \<noteq> hex_digit d" for d
    using spec_alnum_not_NUL [OF hex_digit_alnum [of d]] by simp
  have u: "NUL \<noteq> CHR ''_''" by (simp add: NUL_def)
  show ?thesis
    using spec_alnum_not_NUL [of c] by (auto simp: spec_encode_byte_def h u)
qed

lemma spec_sanitise_no_NUL: "NUL \<notin> set (spec_sanitise x)"
  by (induction x) (simp_all add: spec_sanitise_def spec_encode_byte_no_NUL)

lemma spec_sanitise_Cons: "spec_sanitise (c # x) = spec_encode_byte c @ spec_sanitise x"
  by (simp add: spec_sanitise_def)

lemma copy_element_ok:
  assumes "sc \<longrightarrow> seven_bit s" and "len + element_len sc s < length path"
  shows "\<exists>path'. copy_element sc s path len = Inr (path', len + element_len sc s)
           \<and> length path' = length path
           \<and> take (len + element_len sc s) path' = take len path @ map Some (spec_sanitise (c_str s))"
  using assms
proof (induction s arbitrary: path len)
  case Nil
  then show ?case by (simp add: c_str_def spec_sanitise_def)
next
  case (Cons c s)
  consider (nul) "c = NUL" | (plain) "c \<noteq> NUL" "is_alnum sc c" | (esc) "c \<noteq> NUL" "\<not> is_alnum sc c"
    by blast
  then show ?case
  proof cases
    case nul
    then show ?thesis by (simp add: c_str_Cons spec_sanitise_def)
  next
    case plain
    let ?p1 = "take len path @ Some c # drop (Suc len) path"
    have len: "len < length path" using Cons.prems by simp
    have p1: "poke path len c = Inr ?p1" by (rule poke_Inr [OF len])
    have l1: "length ?p1 = length path" using len by simp
    have t1: "take (Suc len) ?p1 = take len path @ [Some c]" using len by simp
    have sb: "sc \<longrightarrow> seven_bit s" using Cons.prems(1) plain by (simp add: seven_bit_def c_str_Cons)
    have room: "Suc len + element_len sc s < length ?p1" using Cons.prems(2) plain l1 by simp
    from Cons.IH [OF sb room] obtain path' where
      c: "copy_element sc s ?p1 (Suc len) = Inr (path', Suc len + element_len sc s)"
      and l: "length path' = length ?p1"
      and t: "take (Suc len + element_len sc s) path' = take (Suc len) ?p1 @ map Some (spec_sanitise (c_str s))"
      by blast
    have e: "spec_encode_byte c = [c]" using plain by (simp add: spec_encode_byte_def is_alnum_spec)
    have "copy_element sc (c # s) path len = Inr (path', len + element_len sc (c # s))"
      using plain p1 c by simp
    moreover have "length path' = length path" by (rule trans [OF l l1])
    moreover have "take (len + element_len sc (c # s)) path' =
        take len path @ map Some (spec_sanitise (c_str (c # s)))"
      using t plain unfolding t1 by (simp add: c_str_Cons spec_sanitise_Cons e)
    ultimately show ?thesis by blast
  next
    case esc
    let ?n = "of_char c :: nat"
    let ?h = "[hex_digit (?n div 16), hex_digit (?n mod 16)]"
    let ?p1 = "take len path @ Some (CHR ''_'') # drop (Suc len) path"
    let ?p2 = "take (Suc len) ?p1 @ map Some (?h @ [NUL]) @ drop (Suc len + length (?h @ [NUL])) ?p1"
    have len: "len + 3 < length path" using Cons.prems(2) esc by simp
    then have len0: "len < length path" by simp
    have p1: "poke path len (CHR ''_'') = Inr ?p1" by (rule poke_Inr [OF len0])
    have l1: "length ?p1 = length path" using len by simp
    have t1: "take (Suc len) ?p1 = take len path @ [Some (CHR ''_'')]" using len by simp
    have v: "char_to_int sc c = int ?n"
      using Cons.prems(1) esc by (intro char_to_int_seven) (simp add: seven_bit_def c_str_Cons)
    have f: "format_02x (char_to_int sc c) = ?h"
      unfolding v by (rule format_02x_byte) simp
    have p2: "sprintf_02x ?p1 (Suc len) (char_to_int sc c) = Inr ?p2"
      unfolding sprintf_02x_def f by (rule poke_bytes_Inr) (use len l1 in simp)
    have l2: "length ?p2 = length path" using len by simp
    have t2: "take (len + 3) ?p2 = take len path @ map Some (CHR ''_'' # ?h)"
      using len by (simp add: numeral_3_eq_3)
    have sb: "sc \<longrightarrow> seven_bit s" using Cons.prems(1) esc by (simp add: seven_bit_def c_str_Cons)
    have room: "len + 3 + element_len sc s < length ?p2" using Cons.prems(2) esc l2 by simp
    from Cons.IH [OF sb room] obtain path' where
      c: "copy_element sc s ?p2 (len + 3) = Inr (path', len + 3 + element_len sc s)"
      and l: "length path' = length ?p2"
      and t: "take (len + 3 + element_len sc s) path' = take (len + 3) ?p2 @ map Some (spec_sanitise (c_str s))"
      by blast
    have e: "spec_encode_byte c = CHR ''_'' # ?h"
      using esc by (simp add: spec_encode_byte_def is_alnum_spec)
    have a3: "len + 1 + 2 = len + 3" by simp
    have "copy_element sc (c # s) path len = Inr (path', len + element_len sc (c # s))"
      using esc p1 p2 c by (simp add: numeral_3_eq_3)
    moreover have "length path' = length path" by (rule trans [OF l l2])
    moreover have "take (len + element_len sc (c # s)) path' =
        take len path @ map Some (spec_sanitise (c_str (c # s)))"
      using t esc unfolding t2 by (simp add: c_str_Cons spec_sanitise_Cons e add.assoc)
    ultimately show ?thesis by blast
  qed
qed

lemma copy_elements_ok:
  assumes "sc \<longrightarrow> list_all seven_bit args" and "len + path_len sc args < length path"
  shows "\<exists>path'. copy_elements sc args path len = Inr (path', len + path_len sc args)
           \<and> length path' = length path
           \<and> take (len + path_len sc args) path' = take len path @ map Some (spec_elements (map c_str args))"
  using assms
proof (induction args arbitrary: path len)
  case Nil
  then show ?case by (simp add: spec_elements_def)
next
  case (Cons a args)
  let ?p1 = "take len path @ Some (CHR ''/'') # drop (Suc len) path"
  have len: "len < length path" using Cons.prems by simp
  have p1: "poke path len (CHR ''/'') = Inr ?p1" by (rule poke_Inr [OF len])
  have l1: "length ?p1 = length path" using len by simp
  have t1: "take (Suc len) ?p1 = take len path @ [Some (CHR ''/'')]" using len by simp
  have sa: "sc \<longrightarrow> seven_bit a" and sb: "sc \<longrightarrow> list_all seven_bit args"
    using Cons.prems(1) by simp_all
  have room1: "Suc len + element_len sc a < length ?p1" using Cons.prems(2) l1 by simp
  from copy_element_ok [OF sa room1] obtain p2 where
    c2: "copy_element sc a ?p1 (Suc len) = Inr (p2, Suc len + element_len sc a)"
    and l2: "length p2 = length ?p1"
    and t2: "take (Suc len + element_len sc a) p2 = take (Suc len) ?p1 @ map Some (spec_sanitise (c_str a))"
    by blast
  have room2: "Suc len + element_len sc a + path_len sc args < length p2"
    using Cons.prems(2) l1 l2 by simp
  from Cons.IH [OF sb room2] obtain path' where
    c: "copy_elements sc args p2 (Suc len + element_len sc a) =
          Inr (path', Suc len + element_len sc a + path_len sc args)"
    and l: "length path' = length p2"
    and t: "take (Suc len + element_len sc a + path_len sc args) path' =
          take (Suc len + element_len sc a) p2 @ map Some (spec_elements (map c_str args))"
    by blast
  have "copy_elements sc (a # args) path len = Inr (path', len + path_len sc (a # args))"
    using p1 c2 c by (simp add: add.assoc)
  moreover have "length path' = length path" by (rule trans [OF l trans [OF l2 l1]])
  moreover have "take (len + path_len sc (a # args)) path' =
      take len path @ map Some (spec_elements (map c_str (a # args)))"
    using t unfolding t2 t1 by (simp add: spec_elements_def add.assoc)
  ultimately show ?case by blast
qed

lemma spec_elements_simps:
  "spec_elements [] = []"
  "spec_elements (x # xs) = CHR ''/'' # spec_sanitise x @ spec_elements xs"
  by (simp_all add: spec_elements_def)

lemma spec_elements_no_NUL: "NUL \<notin> set (spec_elements xs)"
proof (induction xs)
  case Nil
  then show ?case by (simp add: spec_elements_simps)
next
  case (Cons x xs)
  have "NUL \<noteq> CHR ''/''" by (simp add: NUL_def)
  then show ?case using Cons spec_sanitise_no_NUL [of x] by (simp add: spec_elements_simps)
qed

lemma nih_dbus_path_seven_bit:
  assumes "sc \<longrightarrow> list_all seven_bit args"
  shows "nih_dbus_path sc True rt args = Inr (c_str rt @ spec_elements (map c_str args))"
proof -
  let ?k = "path_len sc args"
  let ?p0 = "map Some (c_str rt) @ Some NUL # replicate ?k None :: block"
  let ?out = "c_str rt @ spec_elements (map c_str args)"
  have room: "strlen rt + ?k < length ?p0" by (simp add: strlen_def)
  from copy_elements_ok [OF assms room] obtain path' where
    c: "copy_elements sc args ?p0 (strlen rt) = Inr (path', strlen rt + ?k)"
    and l: "length path' = length ?p0"
    and t: "take (strlen rt + ?k) path' = take (strlen rt) ?p0 @ map Some (spec_elements (map c_str args))"
    by blast
  have t': "take (strlen rt + ?k) path' = map Some ?out"
    using t by (simp add: strlen_def)
  have lt: "strlen rt + ?k < length path'" using l room by simp
  have p: "poke path' (strlen rt + ?k) NUL = Inr (map Some ?out @ Some NUL # drop (Suc (strlen rt + ?k)) path')"
    unfolding poke_Inr [OF lt] t' by simp
  have n: "NUL \<notin> set ?out" by (simp add: c_str_no_NUL spec_elements_no_NUL)
  have rd: "read_c_str (map Some ?out @ Some NUL # drop (Suc (strlen rt + ?k)) path') = Inr ?out"
    unfolding read_c_str_append [OF n] by simp
  show ?thesis
    unfolding nih_dbus_path_unfold c by (simp only: prod.case sum.case p rd)
qed

lemma matches_path_regex_element:
  assumes "x \<noteq> []"
  shows "matches_path_regex (CHR ''/'' # spec_sanitise x)"
proof -
  have a: "\<And>c. list_all (\<lambda>d. spec_alnum d \<or> d = CHR ''_'') (spec_encode_byte c)"
    by (simp add: spec_encode_byte_def hex_digit_alnum)
  have "list_all (\<lambda>d. spec_alnum d \<or> d = CHR ''_'') (spec_sanitise y)" for y
    by (induction y) (simp_all add: spec_sanitise_def a)
  moreover have "spec_sanitise x \<noteq> []"
    using assms by (cases x) (auto simp: spec_sanitise_def spec_encode_byte_def)
  ultimately show ?thesis by (simp add: matches_path_regex_def)
qed

section \<open>The watch and timeout bridge: proofs\<close>

lemma count_list_removeAll: "count_list (removeAll e l) x = (if x = e then 0 else count_list l x)"
  by (induction l) auto

lemma nih_list_remove_count:
  "count_list (nih_list_remove l e) x = (if x = e then 0 else count_list l x)"
  by (simp add: nih_list_remove_def count_list_removeAll)

lemma nih_list_add_count:
  "count_list (nih_list_add l e) x = (if x = e then 1 else count_list l x)"
  by (simp add: nih_list_add_def nih_list_remove_count)

lemma watch_step_add_balanced:
  assumes "watch_balanced w" and "watch_step (AddWatch fd flags enabled mem) w = Some w'"
  shows "watch_balanced w'"
proof (cases mem)
  case False
  then have "w' = w"
    using assms(2)
    by (auto simp: nih_dbus_add_watch_def nih_io_add_watch_def Let_def split: if_splits)
  then show ?thesis using assms(1) by simp
next
  case True
  let ?n = "length (watches w)"
  let ?h = "length (io_heap w)"
  from True assms(2) have fd: "0 \<le> fd"
    by (auto simp: nih_dbus_add_watch_def nih_io_add_watch_def Let_def split: if_splits)
  have w': "w' = w\<lparr>watches := watches w @ [\<lparr>watch_fd = fd, watch_flags = flags,
                  watch_enabled = enabled, watch_data = Some ?h\<rparr>],
        io_heap := io_heap w @ [\<lparr>io_fd = fd, io_events = {NIH_IO_EXCEPT}
                \<union> (if DBUS_WATCH_READABLE \<in> flags then {NIH_IO_READ} else {})
                \<union> (if DBUS_WATCH_WRITABLE \<in> flags then {NIH_IO_WRITE} else {}), io_data = ?n\<rparr>],
        nih_io_watches := (if enabled then nih_list_add (nih_io_watches w) ?h
                           else nih_list_remove (nih_list_add (nih_io_watches w) ?h) ?h)\<rparr>"
    using True assms(2) fd
    by (auto simp: nih_dbus_add_watch_def nih_io_add_watch_def Let_def split: if_splits)
  show ?thesis
    unfolding watch_balanced_def
  proof (intro allI impI)
    fix watch assume lt: "watch < length (watches w')"
    show "\<exists>io_watch. watch_data (watches w' ! watch) = Some io_watch
        \<and> io_watch < length (io_heap w')
        \<and> io_data (io_heap w' ! io_watch) = watch
        \<and> count_list (nih_io_watches w') io_watch
            = (if watch_enabled (watches w' ! watch) then 1 else 0)"
    proof (cases "watch < ?n")
      case True
      with assms(1) obtain h where h: "watch_data (watches w ! watch) = Some h"
        "h < ?h" "io_data (io_heap w ! h) = watch"
        "count_list (nih_io_watches w) h = (if watch_enabled (watches w ! watch) then 1 else 0)"
        unfolding watch_balanced_def by blast
      then show ?thesis using True
        by (simp add: w' nth_append nih_list_add_count nih_list_remove_count)
    next
      case False
      with lt have "watch = ?n" by (simp add: w')
      then show ?thesis
        by (simp add: w' nth_append nih_list_add_count nih_list_remove_count)
    qed
  qed
qed

lemma watch_step_toggle_balanced:
  assumes "watch_balanced w" and "watch_step (ToggleWatch i en) w = Some w'"
  shows "watch_balanced w'"
proof -
  from assms(2) have i: "i < length (watches w)" by (auto split: if_splits)
  with assms(1) obtain h where h: "watch_data (watches w ! i) = Some h"
    "h < length (io_heap w)" "io_data (io_heap w ! h) = i"
    unfolding watch_balanced_def by blast
  have w': "w' = w\<lparr>watches := (watches w)[i := (watches w ! i)\<lparr>watch_enabled := en\<rparr>],
      nih_io_watches := (if en then nih_list_add (nih_io_watches w) h
                         else nih_list_remove (nih_io_watches w) h)\<rparr>"
    using assms(2) i h(1) by (auto simp: nih_dbus_watch_toggled_def)
  show ?thesis
    unfolding watch_balanced_def
  proof (intro allI impI)
    fix watch assume lt: "watch < length (watches w')"
    then have lt': "watch < length (watches w)" by (simp add: w')
    with assms(1) obtain k where k: "watch_data (watches w ! watch) = Some k"
      "k < length (io_heap w)" "io_data (io_heap w ! k) = watch"
      "count_list (nih_io_watches w) k = (if watch_enabled (watches w ! watch) then 1 else 0)"
      unfolding watch_balanced_def by blast
    show "\<exists>io_watch. watch_data (watches w' ! watch) = Some io_watch
        \<and> io_watch < length (io_heap w')
        \<and> io_data (io_heap w' ! io_watch) = watch
        \<and> count_list (nih_io_watches w') io_watch
            = (if watch_enabled (watches w' ! watch) then 1 else 0)"
    proof (cases "watch = i")
      case True
      then have "k = h" using k(1) h(1) by simp
      then show ?thesis using True i h
        by (simp add: w' nih_list_add_count nih_list_remove_count)
    next
      case False
      then have "k \<noteq> h" using k(3) h(3) by auto
      then show ?thesis using False k lt'
        by (simp add: w' nih_list_add_count nih_list_remove_count)
    qed
  qed
qed

lemma watch_step_balanced:
  "watch_balanced w \<Longrightarrow> watch_step c w = Some w' \<Longrightarrow> watch_balanced w'"
  by (cases c) (auto intro: watch_step_add_balanced watch_step_toggle_balanced simp del: watch_step.simps)

lemma watch_run_balanced:
  "watch_balanced w \<Longrightarrow> watch_run cs w = Some w' \<Longrightarrow> watch_balanced w'"
proof (induction cs arbitrary: w)
  case Nil
  then show ?case by simp
next
  case (Cons c cs)
  then obtain w1 where s: "watch_step c w = Some w1" and r: "watch_run cs w1 = Some w'"
    by (auto split: option.splits simp del: watch_step.simps)
  from Cons.prems(1) s have "watch_balanced w1" by (rule watch_step_balanced)
  then show ?case using r by (rule Cons.IH)
qed

lemma world0_balanced: "watch_balanced world0"
  by (simp add: watch_balanced_def world0_def)

lemma toggle_round_trip:
  assumes "watch_balanced w" and "watch < length (watches w)"
    and "watch_data (watches w ! watch) = Some io_watch"
  shows "\<exists>w1 w2 w3.
      watch_step (ToggleWatch watch True) w = Some w1
    \<and> watch_step (ToggleWatch watch False) w1 = Some w2
    \<and> watch_step (ToggleWatch watch True) w2 = Some w3
    \<and> nih_io_watches w3 = nih_io_watches w1
    \<and> count_list (nih_io_watches w1) io_watch = 1
    \<and> count_list (nih_io_watches w2) io_watch = 0
    \<and> io_heap w1 = io_heap w \<and> io_heap w2 = io_heap w \<and> io_heap w3 = io_heap w
    \<and> watch_data (watches w2 ! watch) = Some io_watch
    \<and> watch_data (watches w3 ! watch) = Some io_watch"
  using assms(2,3)
  by (simp add: nih_dbus_watch_toggled_def nih_list_add_count nih_list_remove_count)
    (simp add: nih_list_add_def nih_list_remove_def)

lemma watch_step_total:
  assumes "watch_balanced w"
    and "case c of AddWatch fd flags enabled mem \<Rightarrow> 0 \<le> fd
         | ToggleWatch watch enabled \<Rightarrow> watch < length (watches w)"
  shows "\<exists>w'. watch_step c w = Some w'"
proof (cases c)
  case (AddWatch fd flags enabled mem)
  then show ?thesis using assms(2)
    by (simp add: nih_dbus_add_watch_def nih_io_add_watch_def Let_def)
next
  case (ToggleWatch watch enabled)
  with assms(2) have i: "watch < length (watches w)" by simp
  with assms(1) obtain h where "watch_data (watches w ! watch) = Some h"
    unfolding watch_balanced_def by blast
  then show ?thesis using ToggleWatch i by (simp add: nih_dbus_watch_toggled_def)
qed

lemma spec_period_div: "spec_period i = - ((- i) div 1000)"
proof -
  have "\<lceil>real_of_int i / real_of_int 1000\<rceil> = - ((- i) div 1000)"
    by (rule ceiling_divide_eq_div)
  then show ?thesis by (simp add: spec_period_def)
qed

lemma ceiling_by_truncation:
  assumes "1 \<le> i"
  shows "(i - 1) div 1000 + 1 = - (- i div (1000::int))"
proof -
  define q where "q = (i - 1) div 1000"
  define r where "r = (i - 1) mod 1000"
  have e: "i - 1 = q * 1000 + r" by (simp add: q_def r_def)
  have r: "0 \<le> r" "r < 1000" by (simp_all add: r_def)
  have "- i = (- q - 1) * 1000 + (999 - r)" using e by simp
  moreover have "0 \<le> 999 - r" "999 - r < 1000" using r by simp_all
  ultimately have "- i div 1000 = - q - 1"
    by (metis div_mult_self3 div_pos_pos_trivial add.commute add_cancel_right_right zero_neq_numeral)
  then show ?thesis by (simp add: q_def)
qed

lemma timeout_period_nonneg:
  assumes "0 \<le> i"
  shows "timeout_period i = (if i = 0 then 1 else spec_period i)"
proof (cases "i = 0")
  case True
  then show ?thesis by (simp add: timeout_period_def signed_divide_int_def)
next
  case False
  with assms have i: "1 \<le> i" by simp
  then have "(i - 1) sdiv 1000 = (i - 1) div 1000"
    by (simp add: signed_divide_int_def sgn_if)
  then show ?thesis
    using False ceiling_by_truncation [OF i] by (simp add: timeout_period_def spec_period_div)
qed

lemma add_timeout_period:
  assumes "timeout < length (timeouts w)" and "timeout_data (timeouts w ! timeout) = None"
  shows "\<exists>w'. nih_dbus_add_timeout True now timeout w = Some (True, w')
    \<and> timer_period w' timeout = Some (timeout_period (timeout_interval (timeouts w ! timeout)))"
  using assms
  by (simp add: nih_dbus_add_timeout_def nih_timer_add_periodic_def Let_def timer_period_def)

lemma timeout_toggled_period:
  assumes "timeout < length (timeouts w)" and "timeout_data (timeouts w ! timeout) = Some timer"
    and "timer < length (timer_heap w)"
  shows "\<exists>w'. nih_dbus_timeout_toggled now timeout w = Some w'
    \<and> timer_period w' timeout = Some (timeout_period (timeout_interval (timeouts w ! timeout)))"
  using assms
  by (simp add: nih_dbus_timeout_toggled_def Let_def timer_period_def)

section \<open>Connection setup: proofs\<close>

lemma disconnected_filter_match:
  assumes "dbus_message_is_signal message DBUS_INTERFACE_LOCAL ''Disconnected''"
    and "dbus_message_has_path message DBUS_PATH_LOCAL"
  shows "nih_dbus_connection_disconnected conn message handler =
     (DBUS_HANDLER_RESULT_NOT_YET_HANDLED,
      conn\<lparr>refcount := refcount conn - 1, trace := trace conn @ filter_events handler\<rparr>)"
  using assms
  by (cases handler) (simp_all add: nih_dbus_connection_disconnected_def filter_events_def)

lemma disconnected_filter_other:
  assumes "\<not> (dbus_message_is_signal message DBUS_INTERFACE_LOCAL ''Disconnected''
             \<and> dbus_message_has_path message DBUS_PATH_LOCAL)"
  shows "nih_dbus_connection_disconnected conn message handler =
     (DBUS_HANDLER_RESULT_NOT_YET_HANDLED, conn)"
  using assms by (auto simp: nih_dbus_connection_disconnected_def)

lemma run_filters_disconnected:
  assumes "dbus_message_is_signal message DBUS_INTERFACE_LOCAL ''Disconnected''"
    and "dbus_message_has_path message DBUS_PATH_LOCAL"
  shows "run_filters fs message conn =
     (DBUS_HANDLER_RESULT_NOT_YET_HANDLED,
      conn\<lparr>refcount := refcount conn - int (length fs),
           trace := trace conn @ concat (map filter_events fs)\<rparr>)"
proof (induction fs arbitrary: conn)
  case Nil
  then show ?case by simp
next
  case (Cons f fs)
  show ?case
    by (simp add: disconnected_filter_match [OF assms] Cons.IH)
qed

lemma disconnected_signal_matches:
  "dbus_message_is_signal disconnected_signal DBUS_INTERFACE_LOCAL ''Disconnected''"
  "dbus_message_has_path disconnected_signal DBUS_PATH_LOCAL"
  by (simp_all add: disconnected_signal_def dbus_message_is_signal_def
      has_type_interface_member_def dbus_message_has_path_def)

lemma setup_first:
  assumes "nih_dbus_setup m handler (new_connection refs) = (0, conn')"
  shows "installed_once conn' \<and> filters conn' = [handler] \<and> refcount conn' = refs \<and> trace conn' = []"
  using assms
  by (auto simp: nih_dbus_setup_def setup_shared_def new_connection_def installed_once_def Let_def
      split: if_splits)

lemma setup_again:
  assumes "installed_once conn" and "nih_dbus_setup m handler conn = (0, conn')"
  shows "conn' = conn\<lparr>filters := filters conn @ [handler]\<rparr>"
  using assms
  by (auto simp: nih_dbus_setup_def setup_shared_def installed_once_def split: if_splits)

lemma setup_calls_again:
  assumes "installed_once conn" and "setup_calls calls conn = (rets, conn')"
    and "list_all (\<lambda>r. r = 0) rets"
  shows "conn' = conn\<lparr>filters := filters conn @ map snd calls\<rparr> \<and> length rets = length calls"
  using assms
proof (induction calls arbitrary: conn rets conn')
  case Nil
  then show ?case by simp
next
  case (Cons c calls)
  obtain m handler where c: "c = (m, handler)" by (cases c)
  obtain ret conn1 where s: "nih_dbus_setup m handler conn = (ret, conn1)"
    by (cases "nih_dbus_setup m handler conn")
  obtain rets1 conn2 where r: "setup_calls calls conn1 = (rets1, conn2)"
    by (cases "setup_calls calls conn1")
  from Cons.prems(2) c s r have e: "rets = ret # rets1" "conn' = conn2" by simp_all
  with Cons.prems(3) have z: "ret = 0" "list_all (\<lambda>r. r = 0) rets1" by simp_all
  have c1: "conn1 = conn\<lparr>filters := filters conn @ [handler]\<rparr>"
    using setup_again [OF Cons.prems(1)] s z(1) by simp
  then have i1: "installed_once conn1" using Cons.prems(1) by (simp add: installed_once_def)
  from Cons.IH [OF i1 r z(2)] show ?case using c1 e c by simp
qed

lemma setup_calls_new:
  assumes "setup_calls calls (new_connection refs) = (rets, conn)"
    and "list_all (\<lambda>r. r = 0) rets" and "calls \<noteq> []"
  shows "installed_once conn \<and> filters conn = map snd calls \<and> length rets = length calls
    \<and> refcount conn = refs \<and> trace conn = []"
proof -
  obtain m handler calls1 where c: "calls = (m, handler) # calls1"
    using assms(3) by (cases calls) auto
  obtain ret conn1 where s: "nih_dbus_setup m handler (new_connection refs) = (ret, conn1)"
    by (cases "nih_dbus_setup m handler (new_connection refs)")
  obtain rets1 conn2 where r: "setup_calls calls1 conn1 = (rets1, conn2)"
    by (cases "setup_calls calls1 conn1")
  from assms(1) c s r have e: "rets = ret # rets1" "conn = conn2" by simp_all
  with assms(2) have z: "ret = 0" "list_all (\<lambda>r. r = 0) rets1" by simp_all
  have f: "installed_once conn1 \<and> filters conn1 = [handler] \<and> refcount conn1 = refs \<and> trace conn1 = []"
    using setup_first s z(1) by simp
  from setup_calls_again [OF _ r z(2)] f
  have "conn2 = conn1\<lparr>filters := filters conn1 @ map snd calls1\<rparr> \<and> length rets1 = length calls1"
    by simp
  then show ?thesis using f e c by (simp add: installed_once_def)
qed

lemma setup_calls_append:
  "setup_calls (xs @ ys) conn =
     (case setup_calls xs conn of
        (r1, c1) \<Rightarrow> (case setup_calls ys c1 of (r2, c2) \<Rightarrow> (r1 @ r2, c2)))"
proof (induction xs arbitrary: conn)
  case Nil
  then show ?case by simp
next
  case (Cons x xs)
  obtain m handler where x: "x = (m, handler)" by (cases x)
  show ?case by (simp add: x Cons.IH split: prod.splits)
qed

lemma setup_calls_length: "setup_calls calls conn = (rets, conn') \<Longrightarrow> length rets = length calls"
proof (induction calls arbitrary: conn rets conn')
  case Nil
  then show ?case by simp
next
  case (Cons c calls)
  obtain m handler where c: "c = (m, handler)" by (cases c)
  show ?case using Cons.prems Cons.IH by (auto simp: c split: prod.splits)
qed

lemma setup_calls_prefix:
  assumes "setup_calls calls (new_connection refs) = (rets, conn)"
    and "list_all (\<lambda>r. r = 0) rets" and "1 \<le> k" and "k \<le> length calls"
  shows "installed_once (snd (setup_calls (take k calls) (new_connection refs)))
    \<and> filters (snd (setup_calls (take k calls) (new_connection refs))) = map snd (take k calls)"
proof -
  obtain r1 c1 where p: "setup_calls (take k calls) (new_connection refs) = (r1, c1)"
    by (cases "setup_calls (take k calls) (new_connection refs)")
  obtain r2 c2 where q: "setup_calls (drop k calls) c1 = (r2, c2)"
    by (cases "setup_calls (drop k calls) c1")
  have "setup_calls (take k calls @ drop k calls) (new_connection refs) = (r1 @ r2, c2)"
    unfolding setup_calls_append by (simp add: p q)
  then have "rets = r1 @ r2" using assms(1) by simp
  then have z: "list_all (\<lambda>r. r = 0) r1" using assms(2) by simp
  have n: "take k calls \<noteq> []" using assms(3,4) by auto
  from setup_calls_new [OF p z n] show ?thesis by (simp add: p)
qed

section \<open>Introspection and dispatch: proofs\<close>

lemma emits_Inr: "emits Inr 0 [] False"
  by (simp add: emits_def)

lemma emits_strcat: "emits (nih_strcat text) 1 text False"
  by (auto simp: emits_def nih_strcat_def)

lemma emits_strcat_sprintf: "emits (nih_strcat_sprintf text) 1 text False"
  by (auto simp: emits_def nih_strcat_sprintf_def nih_strcat_def)

lemma emits_then:
  assumes f: "emits f n s x" and g: "emits g m t y"
  shows "emits (\<lambda>b. then_do (f b) g) (n + m) (s @ t) (x \<or> y)"
  unfolding emits_def
proof (intro allI conjI impI)
  fix b :: build assume le: "n + m \<le> mem_left b"
  let ?b1 = "b\<lparr>xml := xml b @ s, have_props := have_props b \<or> x, mem_left := mem_left b - n\<rparr>"
  have 1: "f b = Inr ?b1" using f le by (simp add: emits_def)
  have "m \<le> mem_left ?b1" using le by simp
  then have 2: "g ?b1 = Inr (?b1\<lparr>xml := xml ?b1 @ t, have_props := have_props ?b1 \<or> y,
      mem_left := mem_left ?b1 - m\<rparr>)"
    using g unfolding emits_def by blast
  show "then_do (f b) g = Inr (b\<lparr>xml := xml b @ s @ t, have_props := have_props b \<or> (x \<or> y),
      mem_left := mem_left b - (n + m)\<rparr>)"
    unfolding 1 then_do_def using 2 by simp
next
  fix b :: build assume lt: "mem_left b < n + m"
  show "\<exists>b'. then_do (f b) g = Inl b'"
  proof (cases "mem_left b < n")
    case True
    then obtain b' where "f b = Inl b'" using f unfolding emits_def by blast
    then show ?thesis by (simp add: then_do_def)
  next
    case False
    let ?b1 = "b\<lparr>xml := xml b @ s, have_props := have_props b \<or> x, mem_left := mem_left b - n\<rparr>"
    from False have 1: "f b = Inr ?b1" using f by (simp add: emits_def)
    have "mem_left ?b1 < m" using lt False by simp
    then obtain b' where "g ?b1 = Inl b'" using g unfolding emits_def by blast
    then show ?thesis unfolding 1 then_do_def by simp
  qed
qed

lemma emits_eq: "emits f n s x \<Longrightarrow> n = n' \<Longrightarrow> s = s' \<Longrightarrow> x = x' \<Longrightarrow> emits f n' s' x'"
  by simp

lemma emits_method_args:
  "emits (method_args_xml args) (length args) (concat (map method_arg_text args)) False"
proof (induction args)
  case Nil
  have "method_args_xml [] = Inr" by (rule ext) simp
  then show ?case by (simp add: emits_Inr)
next
  case (Cons arg args)
  have e: "method_args_xml (arg # args) =
      (\<lambda>b. then_do (nih_strcat_sprintf (method_arg_text arg) b) (method_args_xml args))"
    by (rule ext) simp
  show ?case unfolding e
    by (rule emits_eq [OF emits_then [OF emits_strcat_sprintf Cons.IH]]) simp_all
qed

lemma emits_signal_args:
  "emits (signal_args_xml args) (length args) (concat (map signal_arg_text args)) False"
proof (induction args)
  case Nil
  have "signal_args_xml [] = Inr" by (rule ext) simp
  then show ?case by (simp add: emits_Inr)
next
  case (Cons arg args)
  have e: "signal_args_xml (arg # args) =
      (\<lambda>b. then_do (nih_strcat_sprintf (signal_arg_text arg) b) (signal_args_xml args))"
    by (rule ext) simp
  show ?case unfolding e
    by (rule emits_eq [OF emits_then [OF emits_strcat_sprintf Cons.IH]]) simp_all
qed

lemma emits_children:
  "emits (children_xml cs) (length cs) (concat (map child_node_text cs)) False"
proof (induction cs)
  case Nil
  have "children_xml [] = Inr" by (rule ext) simp
  then show ?case by (simp add: emits_Inr)
next
  case (Cons c cs)
  have e: "children_xml (c # cs) =
      (\<lambda>b. then_do (nih_strcat_sprintf (child_node_text c) b) (children_xml cs))"
    by (rule ext) simp
  show ?case unfolding e
    by (rule emits_eq [OF emits_then [OF emits_strcat_sprintf Cons.IH]]) simp_all
qed

lemma emits_method:
  "emits (\<lambda>b. then_do (then_do (nih_strcat_sprintf (method_open_text (method_name m)) b)
             (method_args_xml (method_args m))) (nih_strcat method_close_text))
     (method_calls m) (spec_method_xml m) False"
  by (rule emits_eq [OF emits_then [OF emits_then [OF emits_strcat_sprintf emits_method_args]
        emits_strcat]])
    (simp_all add: method_calls_def spec_method_xml_def)

lemma emits_methods:
  "emits (methods_xml ms) (sum_list (map method_calls ms)) (concat (map spec_method_xml ms)) False"
proof (induction ms)
  case Nil
  have "methods_xml [] = Inr" by (rule ext) simp
  then show ?case by (simp add: emits_Inr)
next
  case (Cons m ms)
  have e: "methods_xml (m # ms) =
      (\<lambda>b. then_do (then_do (then_do (nih_strcat_sprintf (method_open_text (method_name m)) b)
             (method_args_xml (method_args m))) (nih_strcat method_close_text)) (methods_xml ms))"
    by (rule ext) simp
  show ?case unfolding e
    by (rule emits_eq [OF emits_then [OF emits_method Cons.IH]]) simp_all
qed

lemma emits_signal:
  "emits (\<lambda>b. then_do (then_do (nih_strcat_sprintf (signal_open_text (signal_name s)) b)
             (signal_args_xml (signal_args s))) (nih_strcat signal_close_text))
     (signal_calls s) (spec_signal_xml s) False"
  by (rule emits_eq [OF emits_then [OF emits_then [OF emits_strcat_sprintf emits_signal_args]
        emits_strcat]])
    (simp_all add: signal_calls_def spec_signal_xml_def)

lemma emits_signals:
  "emits (signals_xml ss) (sum_list (map signal_calls ss)) (concat (map spec_signal_xml ss)) False"
proof (induction ss)
  case Nil
  have "signals_xml [] = Inr" by (rule ext) simp
  then show ?case by (simp add: emits_Inr)
next
  case (Cons s ss)
  have e: "signals_xml (s # ss) =
      (\<lambda>b. then_do (then_do (then_do (nih_strcat_sprintf (signal_open_text (signal_name s)) b)
             (signal_args_xml (signal_args s))) (nih_strcat signal_close_text)) (signals_xml ss))"
    by (rule ext) simp
  show ?case unfolding e
    by (rule emits_eq [OF emits_then [OF emits_signal Cons.IH]]) simp_all
qed

lemma emits_property:
  "emits (\<lambda>b. nih_strcat_sprintf (property_text p) (b\<lparr>have_props := True\<rparr>)) 1 (property_text p) True"
  by (auto simp: emits_def nih_strcat_sprintf_def nih_strcat_def)

lemma emits_properties:
  "emits (properties_xml ps) (length ps) (concat (map property_text ps)) (ps \<noteq> [])"
proof (induction ps)
  case Nil
  have "properties_xml [] = Inr" by (rule ext) simp
  then show ?case by (simp add: emits_Inr)
next
  case (Cons p ps)
  have e: "properties_xml (p # ps) =
      (\<lambda>b. then_do (nih_strcat_sprintf (property_text p) (b\<lparr>have_props := True\<rparr>))
             (properties_xml ps))"
    by (rule ext) simp
  show ?case unfolding e
    by (rule emits_eq [OF emits_then [OF emits_property Cons.IH]]) simp_all
qed

lemma emits_interface:
  "emits (\<lambda>b. then_do (then_do (then_do (then_do
                (nih_strcat_sprintf (interface_open_text (interface_name i)) b)
                   (methods_xml (methods i)))
                (signals_xml (signals i)))
             (properties_xml (properties i)))
          (nih_strcat interface_close_text))
     (interface_calls i) (spec_interface_xml i) (properties i \<noteq> [])"
  by (rule emits_eq [OF emits_then [OF emits_then [OF emits_then [OF emits_then
        [OF emits_strcat_sprintf emits_methods] emits_signals] emits_properties] emits_strcat]])
    (simp_all add: interface_calls_def spec_interface_xml_def)

lemma emits_interfaces:
  "emits (interfaces_xml is) (sum_list (map interface_calls is))
     (concat (map spec_interface_xml is)) (list_ex (\<lambda>i. properties i \<noteq> []) is)"
proof (induction "is")
  case Nil
  have "interfaces_xml [] = Inr" by (rule ext) simp
  then show ?case by (simp add: emits_Inr)
next
  case (Cons i "is")
  have e: "interfaces_xml (i # is) =
      (\<lambda>b. then_do (then_do (then_do (then_do (then_do
                (nih_strcat_sprintf (interface_open_text (interface_name i)) b)
                   (methods_xml (methods i)))
                (signals_xml (signals i)))
             (properties_xml (properties i)))
          (nih_strcat interface_close_text)) (interfaces_xml is))"
    by (rule ext) simp
  show ?case unfolding e
    by (rule emits_eq [OF emits_then [OF emits_interface Cons.IH]]) simp_all
qed

lemma introspect_head_ok:
  assumes "head_calls object \<le> mem_left b" and "\<not> have_props b"
  shows "introspect_head object b =
     Inr (b\<lparr>xml := xml b @ node_open_text (object_path object) @ introspectable_text
                @ concat (map spec_interface_xml (interfaces object))
                @ (if declares_property object then properties_interface_text else []),
            have_props := declares_property object,
            mem_left := mem_left b - head_calls object\<rparr>)"
proof -
  let ?n = "2 + sum_list (map interface_calls (interfaces object))"
  let ?t = "node_open_text (object_path object) @ introspectable_text
                @ concat (map spec_interface_xml (interfaces object))"
  let ?f = "\<lambda>b. then_do (then_do (nih_strcat_sprintf (node_open_text (object_path object)) b)
             (nih_strcat_sprintf introspectable_text)) (interfaces_xml (interfaces object))"
  have e: "emits ?f ?n ?t (declares_property object)"
    by (rule emits_eq [OF emits_then [OF emits_then [OF emits_strcat_sprintf emits_strcat_sprintf]
          emits_interfaces]]) (simp_all add: declares_property_def)
  let ?b1 = "b\<lparr>xml := xml b @ ?t, have_props := have_props b \<or> declares_property object,
      mem_left := mem_left b - ?n\<rparr>"
  have n: "?n \<le> mem_left b" using assms(1) by (simp add: head_calls_def)
  have 1: "?f b = Inr ?b1" using e n unfolding emits_def by blast
  have h: "introspect_head object b =
      then_do (?f b) (\<lambda>b. if have_props b then nih_strcat_sprintf properties_interface_text b
                           else Inr b)"
    by (simp add: introspect_head_def)
  show ?thesis
  proof (cases "declares_property object")
    case True
    then have "0 < mem_left ?b1" using assms(1) by (simp add: head_calls_def)
    then show ?thesis
      unfolding h 1 using True assms(2)
      by (simp add: then_do_def nih_strcat_sprintf_def nih_strcat_def head_calls_def)
  next
    case False
    then show ?thesis
      unfolding h 1 using assms(2)
      by (simp add: then_do_def head_calls_def)
  qed
qed

lemma introspect_head_fail:
  assumes "mem_left b < head_calls object" and "\<not> have_props b"
  shows "\<exists>b'. introspect_head object b = Inl b'"
proof -
  let ?n = "2 + sum_list (map interface_calls (interfaces object))"
  let ?t = "node_open_text (object_path object) @ introspectable_text
                @ concat (map spec_interface_xml (interfaces object))"
  let ?f = "\<lambda>b. then_do (then_do (nih_strcat_sprintf (node_open_text (object_path object)) b)
             (nih_strcat_sprintf introspectable_text)) (interfaces_xml (interfaces object))"
  have e: "emits ?f ?n ?t (declares_property object)"
    by (rule emits_eq [OF emits_then [OF emits_then [OF emits_strcat_sprintf emits_strcat_sprintf]
          emits_interfaces]]) (simp_all add: declares_property_def)
  have h: "introspect_head object b =
      then_do (?f b) (\<lambda>b. if have_props b then nih_strcat_sprintf properties_interface_text b
                           else Inr b)"
    by (simp add: introspect_head_def)
  show ?thesis
  proof (cases "mem_left b < ?n")
    case True
    then obtain b' where "?f b = Inl b'" using e unfolding emits_def by blast
    then show ?thesis unfolding h by (simp add: then_do_def)
  next
    case False
    let ?b1 = "b\<lparr>xml := xml b @ ?t, have_props := have_props b \<or> declares_property object,
      mem_left := mem_left b - ?n\<rparr>"
    from False have 1: "?f b = Inr ?b1" using e unfolding emits_def by simp
    from False assms(1) have d: "declares_property object" and z: "mem_left b = ?n"
      by (auto simp: head_calls_def split: if_splits)
    show ?thesis
      unfolding h 1 using d z
      by (simp add: then_do_def nih_strcat_sprintf_def nih_strcat_def)
  qed
qed

lemma emits_tail:
  "emits (\<lambda>b. then_do (children_xml listed b) (nih_strcat node_close_text))
     (length listed + 1) (concat (map child_node_text listed) @ node_close_text) False"
  by (rule emits_eq [OF emits_then [OF emits_children emits_strcat]]) simp_all

lemma introspect_reply_ok:
  assumes "3 \<le> mem_left b" and "live s = [XmlString]" and "\<not> bad_release s" and "sent s = []"
  shows "introspect_reply b s =
     (DBUS_HANDLER_RESULT_HANDLED, \<lparr>live = [], bad_release = False, sent = [xml b]\<rparr>)"
  using assms
  by (simp add: introspect_reply_def acquire_def release_def Let_def)

lemma introspect_reply_fail:
  assumes "mem_left b < 3" and "live s = [XmlString]" and "\<not> bad_release s" and "sent s = []"
  shows "introspect_reply b s =
     (DBUS_HANDLER_RESULT_NEED_MEMORY, \<lparr>live = [], bad_release = False, sent = []\<rparr>)"
proof -
  from assms(1) consider "mem_left b = 0" | "mem_left b = 1" | "mem_left b = 2" by linarith
  then show ?thesis
    using assms(2-4)
    by cases (simp_all add: introspect_reply_def introspect_error_def acquire_def release_def Let_def)
qed


lemma introspect_success:
  assumes "introspect_calls object listed \<le> budget"
  shows "nih_dbus_object_introspect budget listed object =
     (DBUS_HANDLER_RESULT_HANDLED,
      \<lparr>live = [], bad_release = False, sent = [spec_introspection_xml object listed]\<rparr>)"
proof -
  let ?b0 = "\<lparr>xml = DBUS_INTROSPECT_1_0_XML_DOCTYPE_DECL_NODE, have_props = False,
                  mem_left = budget - 1\<rparr>"
  let ?h = "node_open_text (object_path object) @ introspectable_text
                @ concat (map spec_interface_xml (interfaces object))
                @ (if declares_property object then properties_interface_text else [])"
  let ?b1 = "?b0\<lparr>xml := xml ?b0 @ ?h, have_props := declares_property object,
            mem_left := mem_left ?b0 - head_calls object\<rparr>"
  let ?b2 = "?b1\<lparr>mem_left := mem_left ?b1 - 1\<rparr>"
  let ?t = "concat (map child_node_text listed) @ node_close_text"
  let ?b3 = "?b2\<lparr>xml := xml ?b2 @ ?t, have_props := have_props ?b2 \<or> False,
      mem_left := mem_left ?b2 - (length listed + 1)\<rparr>"
  have pos: "budget \<noteq> 0" using assms by (simp add: introspect_calls_def)
  have 1: "introspect_head object ?b0 = Inr ?b1"
    by (rule introspect_head_ok) (use assms in \<open>simp_all add: introspect_calls_def\<close>)
  have m1: "mem_left ?b1 \<noteq> 0" using assms by (simp add: introspect_calls_def)
  have "length listed + 1 \<le> mem_left ?b2" using assms by (simp add: introspect_calls_def)
  then have 2: "then_do (children_xml listed ?b2) (nih_strcat node_close_text) = Inr ?b3"
    using emits_tail [of listed] unfolding emits_def by blast
  have 3: "introspect_reply ?b3
      (release ChildArray (acquire ChildArray (acquire XmlString
          \<lparr>live = [], bad_release = False, sent = []\<rparr>))) =
     (DBUS_HANDLER_RESULT_HANDLED, \<lparr>live = [], bad_release = False, sent = [xml ?b3]\<rparr>)"
    by (rule introspect_reply_ok)
      (use assms in \<open>simp_all add: introspect_calls_def acquire_def release_def\<close>)
  have x: "xml ?b3 = spec_introspection_xml object listed"
    by (simp add: spec_introspection_xml_def)
  show ?thesis
    unfolding nih_dbus_object_introspect_def Let_def 1 using pos m1
    by (simp only: if_False sum.case 2 3 x)
qed

lemma introspect_failure:
  assumes "budget < introspect_calls object listed"
  shows "nih_dbus_object_introspect budget listed object =
     (DBUS_HANDLER_RESULT_NEED_MEMORY, \<lparr>live = [], bad_release = False, sent = []\<rparr>)"
proof (cases "budget = 0")
  case True
  then show ?thesis
    by (simp add: nih_dbus_object_introspect_def introspect_error_def)
next
  case pos: False
  let ?b0 = "\<lparr>xml = DBUS_INTROSPECT_1_0_XML_DOCTYPE_DECL_NODE, have_props = False,
                  mem_left = budget - 1\<rparr>"
  show ?thesis
  proof (cases "mem_left ?b0 < head_calls object")
    case True
    then obtain b' where "introspect_head object ?b0 = Inl b'"
      using introspect_head_fail [of ?b0 object] by auto
    then show ?thesis
      using pos
      by (simp add: nih_dbus_object_introspect_def introspect_error_def acquire_def release_def)
  next
    case h: False
    let ?h = "node_open_text (object_path object) @ introspectable_text
                @ concat (map spec_interface_xml (interfaces object))
                @ (if declares_property object then properties_interface_text else [])"
    let ?b1 = "?b0\<lparr>xml := xml ?b0 @ ?h, have_props := declares_property object,
            mem_left := mem_left ?b0 - head_calls object\<rparr>"
    have 1: "introspect_head object ?b0 = Inr ?b1"
      by (rule introspect_head_ok) (use h in simp_all)
    show ?thesis
    proof (cases "mem_left ?b1 = 0")
      case True
      then show ?thesis
        unfolding nih_dbus_object_introspect_def Let_def 1 using pos
        by (simp add: introspect_error_def acquire_def release_def)
    next
      case m1: False
      let ?b2 = "?b1\<lparr>mem_left := mem_left ?b1 - 1\<rparr>"
      let ?t = "concat (map child_node_text listed) @ node_close_text"
      show ?thesis
      proof (cases "mem_left ?b2 < length listed + 1")
        case True
        then obtain b' where 2: "then_do (children_xml listed ?b2) (nih_strcat node_close_text) = Inl b'"
          using emits_tail [of listed] unfolding emits_def by blast
        show ?thesis
          unfolding nih_dbus_object_introspect_def Let_def 1 using pos m1
          by (simp only: if_False sum.case 2)
            (simp add: introspect_error_def acquire_def release_def)
      next
        case t: False
        let ?b3 = "?b2\<lparr>xml := xml ?b2 @ ?t, have_props := have_props ?b2 \<or> False,
            mem_left := mem_left ?b2 - (length listed + 1)\<rparr>"
        from t have 2: "then_do (children_xml listed ?b2) (nih_strcat node_close_text) = Inr ?b3"
          using emits_tail [of listed] unfolding emits_def by (simp add: not_less)
        have 3: "introspect_reply ?b3
            (release ChildArray (acquire ChildArray (acquire XmlString
                \<lparr>live = [], bad_release = False, sent = []\<rparr>))) =
          (DBUS_HANDLER_RESULT_NEED_MEMORY, \<lparr>live = [], bad_release = False, sent = []\<rparr>)"
          by (rule introspect_reply_fail)
            (use assms pos h m1 t in \<open>simp_all add: introspect_calls_def acquire_def release_def\<close>)
        show ?thesis
          unfolding nih_dbus_object_introspect_def Let_def 1 using pos m1
          by (simp only: if_False sum.case 2 3)
      qed
    qed
  qed
qed

lemma methods_dispatch_find:
  "methods_dispatch call mem message object name ms =
     (case find (\<lambda>method. dbus_message_is_method_call message name (method_name method)) ms of
        None \<Rightarrow> None
      | Some method \<Rightarrow>
          Some (if mem then (call (marshaller method) object
                               \<lparr>wrapper_conn = object_conn object, wrapper_message = message\<rparr>,
                             marshal_events object message method)
                else (DBUS_HANDLER_RESULT_NEED_MEMORY, [])))"
  by (induction ms) (simp_all add: marshal_events_def Let_def)

lemma find_append:
  "find P (xs @ ys) = (case find P xs of None \<Rightarrow> find P ys | Some x \<Rightarrow> Some x)"
  by (induction xs) simp_all

lemma find_map_Pair:
  "find (\<lambda>(i, m). Q i m) (map (Pair i) ms) = map_option (Pair i) (find (Q i) ms)"
  by (induction ms) simp_all

lemma interfaces_dispatch_first_match:
  "interfaces_dispatch call mem message object is =
     (case first_match message is of
        None \<Rightarrow> (DBUS_HANDLER_RESULT_NOT_YET_HANDLED, [])
      | Some (interface, method) \<Rightarrow>
          (if mem then (call (marshaller method) object
                          \<lparr>wrapper_conn = object_conn object, wrapper_message = message\<rparr>,
                        marshal_events object message method)
           else (DBUS_HANDLER_RESULT_NEED_MEMORY, [])))"
proof (induction "is")
  case Nil
  then show ?case by (simp add: first_match_def table_pairs_def)
next
  case (Cons i "is")
  have f: "first_match message (i # is) =
      (case find (\<lambda>method. dbus_message_is_method_call message (interface_name i)
                    (method_name method)) (methods i) of
         None \<Rightarrow> first_match message is
       | Some method \<Rightarrow> Some (i, method))"
    unfolding first_match_def table_pairs_def
    by (simp add: find_append find_map_Pair split: option.splits)
  show ?case
    unfolding f interfaces_dispatch.simps methods_dispatch_find Cons.IH
    by (simp split: option.splits)
qed

section \<open>Where the name of the Properties interface can stand in the document\<close>

lemma marker_hd: "hd properties_marker = double_quote" "properties_marker \<noteq> []"
  by (simp_all add: properties_marker_def)

lemma marker_name: "double_quote \<notin> set DBUS_INTERFACE_PROPERTIES"
  by (simp add: DBUS_INTERFACE_PROPERTIES_def double_quote_def)

lemma take_to_quote:
  "double_quote \<notin> set a \<Longrightarrow> takeWhile (\<lambda>c. c \<noteq> double_quote) (a @ double_quote # r) = a"
  by (induction a) auto

lemma marker_skip:
  assumes "double_quote \<notin> set f" and "sublist properties_marker (f @ r)"
  shows "sublist properties_marker r"
proof -
  from assms(2) consider "sublist properties_marker f" | "sublist properties_marker r"
    | x1 x2 where "properties_marker = x1 @ x2" "suffix x1 f" "prefix x2 r"
    unfolding sublist_append by blast
  then show ?thesis
  proof cases
    case 1
    then have "set properties_marker \<subseteq> set f" by (rule set_mono_sublist)
    then show ?thesis using assms(1) by (auto simp: properties_marker_def)
  next
    case 2
    then show ?thesis .
  next
    case 3
    show ?thesis
    proof (cases x1)
      case Nil
      then show ?thesis using 3 by auto
    next
      case (Cons c cs)
      then have "c = double_quote" using 3(1) by (simp add: properties_marker_def Cons_eq_append_conv)
      moreover have "set x1 \<subseteq> set f" using 3(2) by (auto simp: suffix_def)
      ultimately show ?thesis using assms(1) Cons by auto
    qed
  qed
qed

lemma marker_none: "double_quote \<notin> set f \<Longrightarrow> \<not> sublist properties_marker f"
  using set_mono_sublist [of properties_marker f] by (auto simp: properties_marker_def)

lemma marker_field:
  assumes "double_quote \<notin> set u" and "sublist properties_marker (double_quote # u @ double_quote # r)"
  shows "u = DBUS_INTERFACE_PROPERTIES \<or> sublist properties_marker (double_quote # r)"
proof -
  from assms(2) consider "prefix properties_marker (double_quote # u @ double_quote # r)"
    | "sublist properties_marker (u @ double_quote # r)"
    unfolding sublist_Cons_right by blast
  then show ?thesis
  proof cases
    case 1
    then obtain t where t: "u @ double_quote # r = DBUS_INTERFACE_PROPERTIES @ double_quote # t"
      by (auto simp: properties_marker_def prefix_def)
    have "takeWhile (\<lambda>c. c \<noteq> double_quote) (u @ double_quote # r) = u"
      using assms(1) by (rule take_to_quote)
    moreover have "takeWhile (\<lambda>c. c \<noteq> double_quote) (DBUS_INTERFACE_PROPERTIES @ double_quote # t)
        = DBUS_INTERFACE_PROPERTIES"
      using marker_name by (rule take_to_quote)
    ultimately show ?thesis using t by simp
  next
    case 2
    then show ?thesis using marker_skip [OF assms(1)] by simp
  qed
qed

lemma unmarked_append:
  assumes "unmarked a" and "unmarked b"
  shows "unmarked (a @ b)"
proof (cases "b = []")
  case True
  then show ?thesis using assms by simp
next
  case False
  have "\<not> sublist properties_marker (a @ b)"
  proof
    assume "sublist properties_marker (a @ b)"
    then consider "sublist properties_marker a" | "sublist properties_marker b"
      | x1 x2 where "properties_marker = x1 @ x2" "suffix x1 a" "prefix x2 b"
      unfolding sublist_append by blast
    then show False
    proof cases
      case 1
      then show ?thesis using assms(1) by (simp add: unmarked_def)
    next
      case 2
      then show ?thesis using assms(2) by (simp add: unmarked_def)
    next
      case 3
      show ?thesis
      proof (cases x2)
        case Nil
        then have "sublist properties_marker a" using 3 by auto
        then show ?thesis using assms(1) by (simp add: unmarked_def)
      next
        case (Cons c cs)
        then have "hd b = c" using 3(3) False by (auto simp: prefix_def)
        moreover have "c \<in> set (x1 @ x2)" using Cons by simp
        then have "c \<in> set properties_marker" using 3(1) by simp
        ultimately show ?thesis using assms(2) False by (simp add: unmarked_def)
      qed
    qed
  qed
  moreover have "a @ b = [] \<or> hd (a @ b) \<notin> set properties_marker"
    using assms False by (cases a) (auto simp: unmarked_def)
  ultimately show ?thesis by (simp add: unmarked_def)
qed

lemma unmarked_concat: "(\<And>s. s \<in> set xs \<Longrightarrow> unmarked s) \<Longrightarrow> unmarked (concat xs)"
proof (induction xs)
  case Nil
  show ?case by (simp add: unmarked_def properties_marker_def)
next
  case (Cons x xs)
  then show ?case by (simp add: unmarked_append)
qed

lemma unmarked_tag:
  assumes "plain u" and "double_quote \<notin> set pre" and "pre \<noteq> []"
    and "hd pre \<notin> set properties_marker" and "\<not> sublist properties_marker (double_quote # post)"
  shows "unmarked (pre @ double_quote # u @ double_quote # post)"
proof -
  have "\<not> sublist properties_marker (pre @ double_quote # u @ double_quote # post)"
  proof
    assume "sublist properties_marker (pre @ double_quote # u @ double_quote # post)"
    from marker_skip [OF assms(2) this] have "sublist properties_marker (double_quote # u @ double_quote # post)" .
    from marker_field [OF _ this] assms(1,5) show False by (auto simp: plain_def)
  qed
  then show ?thesis using assms(3,4) by (simp add: unmarked_def)
qed

lemma marker_tail:
  assumes "plain u" and "\<not> sublist properties_marker (double_quote # post)" 
    and "double_quote \<notin> set mid" and "mid \<noteq> DBUS_INTERFACE_PROPERTIES"
  shows "\<not> sublist properties_marker (double_quote # mid @ double_quote # u @ double_quote # post)"
proof
  assume "sublist properties_marker (double_quote # mid @ double_quote # u @ double_quote # post)"
  from marker_field [OF assms(3) this] assms(4)
  have "sublist properties_marker (double_quote # u @ double_quote # post)" by simp
  from marker_field [OF _ this] assms(1,2) show False by (auto simp: plain_def)
qed

lemma marker_end: "double_quote \<notin> set post \<Longrightarrow> \<not> sublist properties_marker (double_quote # post)"
proof
  assume a: "double_quote \<notin> set post" "sublist properties_marker (double_quote # post)"
  then consider "prefix properties_marker (double_quote # post)" | "sublist properties_marker post"
    unfolding sublist_Cons_right by blast
  then show False
  proof cases
    case 1
    then obtain t where "post = DBUS_INTERFACE_PROPERTIES @ double_quote # t"
      by (auto simp: properties_marker_def prefix_def)
    then show ?thesis using a(1) by simp
  next
    case 2
    then show ?thesis using marker_none [OF a(1)] by simp
  qed
qed

lemmas marker_simps = properties_marker_def DBUS_INTERFACE_PROPERTIES_def double_quote_def

lemma unmarked_fixed:
  "unmarked DBUS_INTROSPECT_1_0_XML_DOCTYPE_DECL_NODE"
  "unmarked introspectable_text"
  "unmarked method_close_text"
  "unmarked signal_close_text"
  "unmarked interface_close_text"
  "unmarked node_close_text"
  by (simp_all add: unmarked_def marker_simps DBUS_INTROSPECT_1_0_XML_DOCTYPE_DECL_NODE_def
      introspectable_text_def method_close_text_def signal_close_text_def interface_close_text_def
      node_close_text_def DBUS_INTERFACE_INTROSPECTABLE_def sublist_code)

lemma marker_close:
  "\<not> sublist properties_marker (double_quote # ''>\<newline>'')"
  "\<not> sublist properties_marker (double_quote # ''/>\<newline>'')"
  by (rule marker_end, simp add: double_quote_def)+

lemma unmarked_node_open: "plain path \<Longrightarrow> unmarked (node_open_text path)"
proof -
  assume p: "plain path"
  have "node_open_text path = ''<node name='' @ double_quote # path @ double_quote # ''>\<newline>''"
    by (simp add: node_open_text_def double_quote_def)
  moreover have "unmarked (''<node name='' @ double_quote # path @ double_quote # ''>\<newline>'')"
    by (rule unmarked_tag [OF p _ _ _ marker_close(1)]) (simp_all add: marker_simps)
  ultimately show ?thesis by simp
qed

lemma unmarked_interface_open: "plain name \<Longrightarrow> unmarked (interface_open_text name)"
proof -
  assume p: "plain name"
  have "interface_open_text name = ''  <interface name='' @ double_quote # name @ double_quote # ''>\<newline>''"
    by (simp add: interface_open_text_def double_quote_def)
  moreover have "unmarked (''  <interface name='' @ double_quote # name @ double_quote # ''>\<newline>'')"
    by (rule unmarked_tag [OF p _ _ _ marker_close(1)]) (simp_all add: marker_simps)
  ultimately show ?thesis by simp
qed

lemma unmarked_method_open: "plain name \<Longrightarrow> unmarked (method_open_text name)"
proof -
  assume p: "plain name"
  have "method_open_text name = ''    <method name='' @ double_quote # name @ double_quote # ''>\<newline>''"
    by (simp add: method_open_text_def double_quote_def)
  moreover have "unmarked (''    <method name='' @ double_quote # name @ double_quote # ''>\<newline>'')"
    by (rule unmarked_tag [OF p _ _ _ marker_close(1)]) (simp_all add: marker_simps)
  ultimately show ?thesis by simp
qed

lemma unmarked_signal_open: "plain name \<Longrightarrow> unmarked (signal_open_text name)"
proof -
  assume p: "plain name"
  have "signal_open_text name = ''    <signal name='' @ double_quote # name @ double_quote # ''>\<newline>''"
    by (simp add: signal_open_text_def double_quote_def)
  moreover have "unmarked (''    <signal name='' @ double_quote # name @ double_quote # ''>\<newline>'')"
    by (rule unmarked_tag [OF p _ _ _ marker_close(1)]) (simp_all add: marker_simps)
  ultimately show ?thesis by simp
qed

lemma unmarked_child_node: "plain child \<Longrightarrow> unmarked (child_node_text child)"
proof -
  assume p: "plain child"
  have "child_node_text child = ''  <node name='' @ double_quote # child @ double_quote # ''/>\<newline>''"
    by (simp add: child_node_text_def double_quote_def)
  moreover have "unmarked (''  <node name='' @ double_quote # child @ double_quote # ''/>\<newline>'')"
    by (rule unmarked_tag [OF p _ _ _ marker_close(2)]) (simp_all add: marker_simps)
  ultimately show ?thesis by simp
qed

lemma unmarked_signal_arg:
  assumes "plain (arg_name arg)" and "plain (arg_type arg)"
  shows "unmarked (signal_arg_text arg)"
proof -
  have "signal_arg_text arg =
      ''      <arg name='' @ double_quote # arg_name arg @ double_quote
        # '' type='' @ double_quote # arg_type arg @ double_quote # ''/>\<newline>''"
    by (simp add: signal_arg_text_def double_quote_def)
  moreover have "unmarked (''      <arg name='' @ double_quote # arg_name arg @ double_quote
        # '' type='' @ double_quote # arg_type arg @ double_quote # ''/>\<newline>'')"
  proof (rule unmarked_tag [OF assms(1)])
    show "\<not> sublist properties_marker (double_quote
        # '' type='' @ double_quote # arg_type arg @ double_quote # ''/>\<newline>'')"
      by (rule marker_tail [OF assms(2) marker_close(2)]) (simp_all add: marker_simps)
  qed (simp_all add: marker_simps)
  ultimately show ?thesis by simp
qed

lemma unmarked_method_arg:
  assumes "plain (arg_name arg)" and "plain (arg_type arg)"
  shows "unmarked (method_arg_text arg)"
proof -
  define dir where "dir = (if arg_dir arg = NIH_DBUS_ARG_IN then ''in'' else ''out'')"
  have d: "plain dir" by (simp add: dir_def plain_def marker_simps)
  have "method_arg_text arg =
      ''      <arg name='' @ double_quote # arg_name arg @ double_quote
        # '' type='' @ double_quote # arg_type arg @ double_quote
        # '' direction='' @ double_quote # dir @ double_quote # ''/>\<newline>''"
    by (simp add: method_arg_text_def double_quote_def dir_def)
  moreover have "unmarked (''      <arg name='' @ double_quote # arg_name arg @ double_quote
        # '' type='' @ double_quote # arg_type arg @ double_quote
        # '' direction='' @ double_quote # dir @ double_quote # ''/>\<newline>'')"
  proof (rule unmarked_tag [OF assms(1)])
    have "\<not> sublist properties_marker (double_quote
        # '' direction='' @ double_quote # dir @ double_quote # ''/>\<newline>'')"
      by (rule marker_tail [OF d marker_close(2)]) (simp_all add: marker_simps)
    then show "\<not> sublist properties_marker (double_quote
        # '' type='' @ double_quote # arg_type arg @ double_quote
        # '' direction='' @ double_quote # dir @ double_quote # ''/>\<newline>'')"
      by (rule marker_tail [OF assms(2)]) (simp_all add: marker_simps)
  qed (simp_all add: marker_simps)
  ultimately show ?thesis by simp
qed

lemma unmarked_method:
  assumes "list_all plain (method_strings method)"
  shows "unmarked (spec_method_xml method)"
proof -
  have a: "unmarked (method_arg_text arg)" if "arg \<in> set (method_args method)" for arg
    using assms that by (auto simp: method_strings_def arg_strings_def list_all_iff intro: unmarked_method_arg)
  have "unmarked (concat (map method_arg_text (method_args method)))"
    by (rule unmarked_concat) (auto simp: a)
  moreover have "unmarked (method_open_text (method_name method))"
    using assms by (simp add: method_strings_def unmarked_method_open)
  ultimately show ?thesis
    by (simp add: spec_method_xml_def unmarked_append unmarked_fixed)
qed

lemma unmarked_signal:
  assumes "list_all plain (signal_strings signal)"
  shows "unmarked (spec_signal_xml signal)"
proof -
  have a: "unmarked (signal_arg_text arg)" if "arg \<in> set (signal_args signal)" for arg
    using assms that by (auto simp: signal_strings_def arg_strings_def list_all_iff intro: unmarked_signal_arg)
  have "unmarked (concat (map signal_arg_text (signal_args signal)))"
    by (rule unmarked_concat) (auto simp: a)
  moreover have "unmarked (signal_open_text (signal_name signal))"
    using assms by (simp add: signal_strings_def unmarked_signal_open)
  ultimately show ?thesis
    by (simp add: spec_signal_xml_def unmarked_append unmarked_fixed)
qed

lemma unmarked_interface:
  assumes "list_all plain (interface_strings interface)" and "properties interface = []"
  shows "unmarked (spec_interface_xml interface)"
proof -
  have "list_all plain (method_strings m)" if "m \<in> set (methods interface)" for m
    using assms(1) that unfolding interface_strings_def list_all_iff by simp blast
  then have m: "unmarked (concat (map spec_method_xml (methods interface)))"
    by (intro unmarked_concat) (auto intro: unmarked_method)
  have "list_all plain (signal_strings g)" if "g \<in> set (signals interface)" for g
    using assms(1) that unfolding interface_strings_def list_all_iff by simp blast
  then have s: "unmarked (concat (map spec_signal_xml (signals interface)))"
    by (intro unmarked_concat) (auto intro: unmarked_signal)
  have n: "unmarked (interface_open_text (interface_name interface))"
    using assms(1) by (simp add: interface_strings_def unmarked_interface_open)
  show ?thesis
    using m s n by (simp add: spec_interface_xml_def assms(2) unmarked_append unmarked_fixed)
qed

lemma unmarked_document:
  assumes "plain_names object listed" and "\<not> declares_property object"
  shows "unmarked (spec_introspection_xml object listed)"
proof -
  have p: "properties interface = []" if "interface \<in> set (interfaces object)" for interface
    using assms(2) that by (auto simp: declares_property_def list_ex_iff)
  have "list_all plain (interface_strings interface)"
    if "interface \<in> set (interfaces object)" for interface
    using assms(1) that unfolding plain_names_def printed_strings_def list_all_iff by simp blast
  then have i: "unmarked (concat (map spec_interface_xml (interfaces object)))"
    using p by (intro unmarked_concat) (auto intro: unmarked_interface)
  have "plain child" if "child \<in> set listed" for child
    using assms(1) that unfolding plain_names_def printed_strings_def list_all_iff by simp
  then have c: "unmarked (concat (map child_node_text listed))"
    by (intro unmarked_concat) (auto intro: unmarked_child_node)
  have n: "unmarked (node_open_text (object_path object))"
    using assms(1) by (simp add: plain_names_def printed_strings_def unmarked_node_open)
  show ?thesis
    using i c n by (simp add: spec_introspection_xml_def assms(2) unmarked_append unmarked_fixed)
qed

lemma marker_in_properties: "sublist properties_marker properties_interface_text"
proof -
  have "properties_interface_text = ''  <interface name='' @ properties_marker
      @ drop (length (''  <interface name='' @ properties_marker)) properties_interface_text"
    by (simp add: properties_interface_text_def marker_simps)
  then show ?thesis by (metis sublist_appendI)
qed

lemma properties_text_only_if_declared:
  assumes "plain_names object listed" and "\<not> declares_property object"
  shows "\<not> sublist properties_interface_text (spec_introspection_xml object listed)"
proof
  assume "sublist properties_interface_text (spec_introspection_xml object listed)"
  with marker_in_properties have "sublist properties_marker (spec_introspection_xml object listed)"
    by (rule sublist_order.order_trans)
  then show False using unmarked_document [OF assms] by (simp add: unmarked_def)
qed

subsection \<open>The examples of the introspection\<close>

lemma sample_calls: "introspect_calls sample_object [''child''] = 22"
  by (simp add: introspect_calls_def head_calls_def interface_calls_def method_calls_def
      signal_calls_def declares_property_def sample_object_def)

lemma sample_document_eq: "spec_introspection_xml sample_object [''child''] = sample_document"
  by (simp add: spec_introspection_xml_def spec_interface_xml_def spec_method_xml_def
      spec_signal_xml_def declares_property_def sample_object_def sample_document_def
      DBUS_INTROSPECT_1_0_XML_DOCTYPE_DECL_NODE_def node_open_text_def introspectable_text_def
      interface_open_text_def method_open_text_def method_arg_text_def method_close_text_def
      signal_open_text_def signal_arg_text_def signal_close_text_def property_text_def
      interface_close_text_def properties_interface_text_def child_node_text_def
      node_close_text_def DBUS_INTERFACE_INTROSPECTABLE_def DBUS_INTERFACE_PROPERTIES_def)

lemma sample_reply:
  "nih_dbus_object_introspect 22 [''child''] sample_object =
     (DBUS_HANDLER_RESULT_HANDLED,
      \<lparr>live = [], bad_release = False, sent = [sample_document]\<rparr>)"
  using introspect_success [of sample_object "[''child'']" 22]
  by (simp add: sample_calls sample_document_eq)

lemma sample_plain: "plain_names sample_object [''child'']"
  by (simp add: plain_names_def printed_strings_def interface_strings_def method_strings_def
      signal_strings_def arg_strings_def plain_def sample_object_def
      double_quote_def DBUS_INTERFACE_PROPERTIES_def)

lemma properties_table_calls: "introspect_calls properties_table_object [] = 24"
  by (simp add: introspect_calls_def head_calls_def interface_calls_def method_calls_def
      signal_calls_def declares_property_def properties_table_object_def)

lemma properties_table_xml:
  "spec_introspection_xml properties_table_object [] =
     DBUS_INTROSPECT_1_0_XML_DOCTYPE_DECL_NODE @ node_open_text ''/a''
     @ introspectable_text @ properties_interface_text @ node_close_text"
  by (simp add: spec_introspection_xml_def spec_interface_xml_def spec_method_xml_def
      declares_property_def properties_table_object_def properties_interface_text_def
      interface_open_text_def method_open_text_def method_arg_text_def method_close_text_def
      interface_close_text_def)

text \<open>
  C1, amended. When plain \<open>char\<close> is unsigned, or every byte of every element is below
  \<open>0x80\<close>, and the allocation succeeds, \<open>nih_dbus_path\<close> returns the root followed, for
  each element, by \<open>/\<close> and the element with every byte in \<open>[A-Za-z0-9]\<close> copied and every
  other byte replaced by \<open>_\<close> and its two lowercase hexadecimal digits. The text appended
  for a non-empty element matches \<open>^/[A-Za-z0-9_]+$\<close>, and so does the whole output of
  \<open>make_path (root, x)\<close> when the root is empty. The three examples of the specification
  hold.
\<close>

theorem nih_dbus_path_encoding:
  assumes "sc \<longrightarrow> list_all seven_bit args"
  shows "nih_dbus_path sc True rt args = Inr (spec_make_path (c_str rt) (map c_str args))
    \<and> (\<forall>x\<in>set args. c_str x \<noteq> [] \<longrightarrow> matches_path_regex (CHR ''/'' # spec_sanitise (c_str x)))
    \<and> (\<forall>x\<in>set args. args = [x] \<and> c_str x \<noteq> [] \<longrightarrow>
          (\<exists>out. nih_dbus_path sc True [] args = Inr out \<and> matches_path_regex out))
    \<and> nih_dbus_path sc True ''/com/example'' [''foo.bar''] = Inr ''/com/example/foo_2ebar''
    \<and> nih_dbus_path sc True ''/x'' [''a/b''] = Inr ''/x/a_2fb''
    \<and> nih_dbus_path sc True ''/x'' [''abc''] = Inr ''/x/abc''"
proof -
  have g: "nih_dbus_path sc True r args = Inr (spec_make_path (c_str r) (map c_str args))" for r
    using nih_dbus_path_seven_bit [OF assms] by (simp add: spec_make_path_def)
  have m: "matches_path_regex (CHR ''/'' # spec_sanitise (c_str x))" if "c_str x \<noteq> []" for x
    using that by (rule matches_path_regex_element)
  have one: "\<exists>out. nih_dbus_path sc True [] args = Inr out \<and> matches_path_regex out"
    if "args = [x]" "c_str x \<noteq> []" for x
    using g [of "[]"] m [OF that(2)] that(1)
    by (simp add: spec_make_path_def spec_elements_simps c_str_def)
  have e1: "nih_dbus_path sc True ''/com/example'' [''foo.bar''] = Inr ''/com/example/foo_2ebar''"
    by (subst nih_dbus_path_seven_bit) code_simp+
  have e2: "nih_dbus_path sc True ''/x'' [''a/b''] = Inr ''/x/a_2fb''"
    by (subst nih_dbus_path_seven_bit) code_simp+
  have e3: "nih_dbus_path sc True ''/x'' [''abc''] = Inr ''/x/abc''"
    by (subst nih_dbus_path_seven_bit) code_simp+
  show ?thesis using g m one e1 e2 e3 by blast
qed

theorem nih_dbus_path_encoding_witness:
  "list_all seven_bit [''foo_bar'']
   \<and> nih_dbus_path True True ''/com'' [''foo_bar''] = Inr ''/com/foo_5fbar''
   \<and> c_str ''foo_bar'' \<noteq> []
   \<and> matches_path_regex (CHR ''/'' # spec_sanitise (c_str ''foo_bar''))
   \<and> nih_dbus_path True True [] [''foo_bar''] = Inr ''/foo_5fbar''
   \<and> matches_path_regex ''/foo_5fbar''"
proof -
  have h0: "list_all seven_bit [''foo_bar'']" by code_simp
  then have h: "True \<longrightarrow> list_all seven_bit [''foo_bar'']" by simp
  have s: "spec_make_path (c_str ''/com'') (map c_str [''foo_bar'']) = ''/com/foo_5fbar''"
    by code_simp
  have n: "c_str ''foo_bar'' \<noteq> []" by code_simp
  have d: "nih_dbus_path True True [] [''foo_bar''] = Inr ''/foo_5fbar''" by code_simp
  have r: "matches_path_regex ''/foo_5fbar''" by code_simp
  show ?thesis
    using nih_dbus_path_encoding [OF h, of "''/com''"] h0 s n d r by simp
qed

text \<open>
  C1 as stated fails: the output of \<open>make_path ("/x", "abc")\<close> is \<open>/x/abc\<close>, which has a
  second \<open>/\<close> and does not match \<open>^/[A-Za-z0-9_]+$\<close>; the root is part of the output.
\<close>

theorem nih_dbus_path_regex_counterexample:
  "nih_dbus_path True True ''/x'' [''abc''] = Inr ''/x/abc''
   \<and> nih_dbus_path False True ''/x'' [''abc''] = Inr ''/x/abc''
   \<and> ''abc'' \<noteq> []
   \<and> \<not> matches_path_regex ''/x/abc''"
  by code_simp

text \<open>
  Where plain \<open>char\<close> is signed, a byte of \<open>0x80\<close> or above is promoted to a negative
  \<open>int\<close> and \<open>%02x\<close> prints eight digits into the three bytes the first pass counted:
  the next writes overwrite all but \<open>_ff\<close>, and at the end of the path the write leaves
  the block.
\<close>

lemma nih_dbus_path_signed_char:
  "nih_dbus_path True True ''/x'' [CHR 0x80 # ''abcdef''] = Inr ''/x/_ffabcdef''
   \<and> spec_make_path ''/x'' [CHR 0x80 # ''abcdef''] = ''/x/_80abcdef''
   \<and> nih_dbus_path False True ''/x'' [CHR 0x80 # ''abcdef''] = Inr ''/x/_80abcdef''
   \<and> nih_dbus_path True True ''/x'' [[CHR 0x80]] = Inl HeapOverflow"
  by code_simp

text \<open>
  C10. The root is never sanitised: the output is the root, as it is, followed by what
  the elements alone produce (the result of the same call with an empty root), whatever
  bytes the root holds; with no elements the output is the root and nothing else.
\<close>

theorem nih_dbus_path_root_verbatim:
  "nih_dbus_path sc mem rt args =
     (case nih_dbus_path sc mem [] args of Inl e \<Rightarrow> Inl e | Inr rest \<Rightarrow> Inr (c_str rt @ rest))
   \<and> nih_dbus_path sc True rt [] = Inr (c_str rt)
   \<and> nih_dbus_path sc True ''/a.b-c_d/'' [] = Inr ''/a.b-c_d/''
   \<and> nih_dbus_path sc True ''/a.b-c_d/'' [''e.f''] = Inr ''/a.b-c_d//e_2ef''"
proof -
  have c: "c_str ''/a.b-c_d/'' = ''/a.b-c_d/''" by code_simp
  have e: "nih_dbus_path sc True ''/a.b-c_d/'' [''e.f''] = Inr ''/a.b-c_d//e_2ef''"
    by (subst nih_dbus_path_seven_bit) code_simp+
  show ?thesis
    using nih_dbus_path_root [of sc mem rt args] nih_dbus_path_no_args [of sc rt]
      nih_dbus_path_no_args [of sc "''/a.b-c_d/''"] c e
    by simp
qed

text \<open>
  C2, amended. For every timeout with a non-negative interval, the add callback (when
  the timer is allocated) and the toggle callback set the period of the host timer to
  \<open>ceil (interval_ms / 1000)\<close> seconds when the interval is at least 1 ms, and to 1 second
  when the interval is 0 ms. A 250 ms timeout yields 1 second, 1500 ms yields 2 seconds,
  0 ms yields 1 second, and a toggle after the interval changed to 2500 ms sets the
  period to 3.
\<close>

theorem timeout_period_rounds_up:
  assumes "timeout < length (timeouts w)" and "0 \<le> timeout_interval (timeouts w ! timeout)"
  shows "(timeout_data (timeouts w ! timeout) = None \<longrightarrow>
            (\<exists>w'. nih_dbus_add_timeout True now timeout w = Some (True, w')
               \<and> timer_period w' timeout =
                   Some (if timeout_interval (timeouts w ! timeout) = 0 then 1
                         else spec_period (timeout_interval (timeouts w ! timeout)))))
    \<and> (\<forall>timer. timeout_data (timeouts w ! timeout) = Some timer \<and> timer < length (timer_heap w) \<longrightarrow>
            (\<exists>w'. nih_dbus_timeout_toggled now timeout w = Some w'
               \<and> timer_period w' timeout =
                   Some (if timeout_interval (timeouts w ! timeout) = 0 then 1
                         else spec_period (timeout_interval (timeouts w ! timeout)))))
    \<and> map_option (\<lambda>(ok, w'). (ok, timer_period w' 0))
          (nih_dbus_add_timeout True now 0 (one_timeout 250 enabled)) = Some (True, Some 1)
    \<and> map_option (\<lambda>(ok, w'). (ok, timer_period w' 0))
          (nih_dbus_add_timeout True now 0 (one_timeout 1500 enabled)) = Some (True, Some 2)
    \<and> map_option (\<lambda>(ok, w'). (ok, timer_period w' 0))
          (nih_dbus_add_timeout True now 0 (one_timeout 0 enabled)) = Some (True, Some 1)
    \<and> (case nih_dbus_add_timeout True now 0 (one_timeout 250 enabled) of
          None \<Rightarrow> None
        | Some (ok, w1) \<Rightarrow>
            map_option (\<lambda>w2. timer_period w2 0)
              (nih_dbus_timeout_toggled now 0 (set_timeout 0 2500 enabled' w1))) = Some (Some 3)"
proof -
  have p: "timeout_period (timeout_interval (timeouts w ! timeout)) =
      (if timeout_interval (timeouts w ! timeout) = 0 then 1
       else spec_period (timeout_interval (timeouts w ! timeout)))"
    using assms(2) by (rule timeout_period_nonneg)
  have a: "timeout_data (timeouts w ! timeout) = None \<longrightarrow>
            (\<exists>w'. nih_dbus_add_timeout True now timeout w = Some (True, w')
               \<and> timer_period w' timeout =
                   Some (if timeout_interval (timeouts w ! timeout) = 0 then 1
                         else spec_period (timeout_interval (timeouts w ! timeout))))"
    using add_timeout_period [OF assms(1), of now] unfolding p by blast
  have t: "\<forall>timer. timeout_data (timeouts w ! timeout) = Some timer \<and> timer < length (timer_heap w) \<longrightarrow>
            (\<exists>w'. nih_dbus_timeout_toggled now timeout w = Some w'
               \<and> timer_period w' timeout =
                   Some (if timeout_interval (timeouts w ! timeout) = 0 then 1
                         else spec_period (timeout_interval (timeouts w ! timeout))))"
    using timeout_toggled_period [OF assms(1), of _ now] unfolding p by blast
  have e1: "map_option (\<lambda>(ok, w'). (ok, timer_period w' 0))
          (nih_dbus_add_timeout True now 0 (one_timeout 250 enabled)) = Some (True, Some 1)"
    by (auto simp: timer_period_def nih_dbus_add_timeout_def one_timeout_def world0_def
        nih_timer_add_periodic_def Let_def timeout_period_def signed_divide_int_def)
  have e2: "map_option (\<lambda>(ok, w'). (ok, timer_period w' 0))
          (nih_dbus_add_timeout True now 0 (one_timeout 1500 enabled)) = Some (True, Some 2)"
    by (auto simp: timer_period_def nih_dbus_add_timeout_def one_timeout_def world0_def
        nih_timer_add_periodic_def Let_def timeout_period_def signed_divide_int_def)
  have e3: "map_option (\<lambda>(ok, w'). (ok, timer_period w' 0))
          (nih_dbus_add_timeout True now 0 (one_timeout 0 enabled)) = Some (True, Some 1)"
    by (auto simp: timer_period_def nih_dbus_add_timeout_def one_timeout_def world0_def
        nih_timer_add_periodic_def Let_def timeout_period_def signed_divide_int_def)
  have e4: "(case nih_dbus_add_timeout True now 0 (one_timeout 250 enabled) of
          None \<Rightarrow> None
        | Some (ok, w1) \<Rightarrow>
            map_option (\<lambda>w2. timer_period w2 0)
              (nih_dbus_timeout_toggled now 0 (set_timeout 0 2500 enabled' w1))) = Some (Some 3)"
    by (auto simp: timer_period_def nih_dbus_add_timeout_def one_timeout_def world0_def
        nih_timer_add_periodic_def Let_def timeout_period_def signed_divide_int_def
        nih_dbus_timeout_toggled_def set_timeout_def)
  show ?thesis using a t e1 e2 e3 e4 by (intro conjI)
qed

theorem timeout_period_rounds_up_witness:
  "0 < length (timeouts (one_timeout 1500 True))
   \<and> 0 \<le> timeout_interval (timeouts (one_timeout 1500 True) ! 0)
   \<and> timeout_data (timeouts (one_timeout 1500 True) ! 0) = None
   \<and> (\<exists>w'. nih_dbus_add_timeout True 7 0 (one_timeout 1500 True) = Some (True, w')
         \<and> timer_period w' 0 = Some 2)"
proof -
  have l: "0 < length (timeouts (one_timeout 1500 True))"
    by (simp add: one_timeout_def)
  have i: "0 \<le> timeout_interval (timeouts (one_timeout 1500 True) ! 0)"
    by (simp add: one_timeout_def)
  have d: "timeout_data (timeouts (one_timeout 1500 True) ! 0) = None"
    by (simp add: one_timeout_def)
  have v: "timeout_interval (timeouts (one_timeout 1500 True) ! 0) = 1500"
    by (simp add: one_timeout_def)
  have s: "spec_period 1500 = 2" by (simp add: spec_period_def)
  show ?thesis
    using timeout_period_rounds_up [OF l i, of 7] l i d unfolding v by (simp add: s)
qed

text \<open>
  C2 as stated fails at an interval of 0 ms: both callbacks set the period to 1 second,
  and \<open>ceil (0 / 1000)\<close> is 0.
\<close>

theorem timeout_period_zero_counterexample:
  "map_option (\<lambda>(ok, w'). (ok, timer_period w' 0))
       (nih_dbus_add_timeout True 0 0 (one_timeout 0 True)) = Some (True, Some 1)
   \<and> (case nih_dbus_add_timeout True 0 0 (one_timeout 250 True) of
          None \<Rightarrow> None
        | Some (ok, w1) \<Rightarrow>
            map_option (\<lambda>w2. timer_period w2 0)
              (nih_dbus_timeout_toggled 0 0 (set_timeout 0 0 True w1))) = Some (Some 1)
   \<and> spec_period 0 = 0"
  by (simp add: timer_period_def nih_dbus_add_timeout_def one_timeout_def world0_def
        nih_timer_add_periodic_def Let_def timeout_period_def signed_divide_int_def
        nih_dbus_timeout_toggled_def set_timeout_def spec_period_def)

text \<open>
  C7. After any sequence of add and toggle callbacks (driven by the library from the
  empty store), every enabled watch has exactly one host I/O watch in the active list
  and every disabled watch has none; the callbacks then never fail an assertion.
  Toggling a watch keeps its host structure and its data member (nothing is allocated
  or freed), and enable, disable, enable leaves the active list as the first enable
  left it.
\<close>

theorem watch_bridge_balanced:
  assumes "watch_run cs world0 = Some w"
  shows "watch_balanced w
    \<and> (\<forall>fd flags enabled mem. 0 \<le> fd \<longrightarrow> watch_step (AddWatch fd flags enabled mem) w \<noteq> None)
    \<and> (\<forall>watch io_watch.
          watch < length (watches w) \<and> watch_data (watches w ! watch) = Some io_watch \<longrightarrow>
          (\<exists>w1 w2 w3.
              watch_step (ToggleWatch watch True) w = Some w1
            \<and> watch_step (ToggleWatch watch False) w1 = Some w2
            \<and> watch_step (ToggleWatch watch True) w2 = Some w3
            \<and> nih_io_watches w3 = nih_io_watches w1
            \<and> count_list (nih_io_watches w1) io_watch = 1
            \<and> count_list (nih_io_watches w2) io_watch = 0
            \<and> io_heap w1 = io_heap w \<and> io_heap w2 = io_heap w \<and> io_heap w3 = io_heap w
            \<and> watch_data (watches w2 ! watch) = Some io_watch
            \<and> watch_data (watches w3 ! watch) = Some io_watch))"
proof -
  have b: "watch_balanced w"
    using world0_balanced assms by (rule watch_run_balanced)
  have a: "watch_step (AddWatch fd flags enabled mem) w \<noteq> None" if "0 \<le> fd" for fd flags enabled mem
    using watch_step_total [OF b, of "AddWatch fd flags enabled mem"] that by auto
  show ?thesis
    using b a toggle_round_trip [OF b] by blast
qed

theorem watch_bridge_balanced_witness:
  "watch_run [AddWatch 3 {DBUS_WATCH_READABLE} True True, ToggleWatch 0 False] world0 =
     Some \<lparr>watches = [\<lparr>watch_fd = 3, watch_flags = {DBUS_WATCH_READABLE},
                        watch_enabled = False, watch_data = Some 0\<rparr>],
           timeouts = [],
           io_heap = [\<lparr>io_fd = 3, io_events = {NIH_IO_EXCEPT, NIH_IO_READ}, io_data = 0\<rparr>],
           timer_heap = [], nih_io_watches = [], nih_timers = []\<rparr>
   \<and> watch_balanced
        \<lparr>watches = [\<lparr>watch_fd = 3, watch_flags = {DBUS_WATCH_READABLE},
                        watch_enabled = False, watch_data = Some 0\<rparr>],
           timeouts = [],
           io_heap = [\<lparr>io_fd = 3, io_events = {NIH_IO_EXCEPT, NIH_IO_READ}, io_data = 0\<rparr>],
           timer_heap = [], nih_io_watches = [], nih_timers = []\<rparr>
   \<and> map_option nih_io_watches
        (watch_run [AddWatch 3 {DBUS_WATCH_READABLE} True True, ToggleWatch 0 False,
                    ToggleWatch 0 True] world0) = Some [0]
   \<and> map_option nih_io_watches
        (watch_run [AddWatch 3 {DBUS_WATCH_READABLE} True True, ToggleWatch 0 False,
                    ToggleWatch 0 True, ToggleWatch 0 False, ToggleWatch 0 True] world0) = Some [0]"
proof -
  let ?w = "\<lparr>watches = [\<lparr>watch_fd = 3, watch_flags = {DBUS_WATCH_READABLE},
                        watch_enabled = False, watch_data = Some 0\<rparr>],
           timeouts = [],
           io_heap = [\<lparr>io_fd = 3, io_events = {NIH_IO_EXCEPT, NIH_IO_READ}, io_data = 0\<rparr>],
           timer_heap = [], nih_io_watches = [], nih_timers = []\<rparr>"
  have r: "watch_run [AddWatch 3 {DBUS_WATCH_READABLE} True True, ToggleWatch 0 False] world0 = Some ?w"
    by (simp add: world0_def nih_dbus_add_watch_def nih_io_add_watch_def nih_dbus_watch_toggled_def
       nih_list_add_def nih_list_remove_def Let_def)
  have e1: "map_option nih_io_watches
        (watch_run [AddWatch 3 {DBUS_WATCH_READABLE} True True, ToggleWatch 0 False,
                    ToggleWatch 0 True] world0) = Some [0]"
    by (simp add: world0_def nih_dbus_add_watch_def nih_io_add_watch_def nih_dbus_watch_toggled_def
       nih_list_add_def nih_list_remove_def Let_def)
  have e2: "map_option nih_io_watches
        (watch_run [AddWatch 3 {DBUS_WATCH_READABLE} True True, ToggleWatch 0 False,
                    ToggleWatch 0 True, ToggleWatch 0 False, ToggleWatch 0 True] world0) = Some [0]"
    by (simp add: world0_def nih_dbus_add_watch_def nih_io_add_watch_def nih_dbus_watch_toggled_def
       nih_list_add_def nih_list_remove_def Let_def)
  show ?thesis
    using watch_bridge_balanced [OF r] r e1 e2 by blast
qed

text \<open>
  C5, amended. For every connection the bindings have not set up yet, after \<open>n \<ge> 1\<close>
  calls of setup that each return zero, the main loop function and the watch, timeout
  and wakeup functions are installed exactly once, and they are so after the first call
  and after every later one; each call appended one disconnect filter, so exactly \<open>n\<close>
  filters are installed, and a disconnect after them releases exactly \<open>n\<close> references
  of the connection.
\<close>

theorem setup_installs_once:
  assumes "setup_calls calls (new_connection refs) = (rets, conn)"
    and "list_all (\<lambda>r. r = 0) rets" and "calls \<noteq> []"
  shows "main_loop_data conn \<and> main_loop_funcs conn = 1 \<and> watch_functions conn = 1
    \<and> timeout_functions conn = 1 \<and> wakeup_main_functions conn = 1
    \<and> filters conn = map snd calls \<and> length (filters conn) = length calls
    \<and> (\<forall>k. 1 \<le> k \<and> k \<le> length calls \<longrightarrow>
          installed_once (snd (setup_calls (take k calls) (new_connection refs)))
          \<and> length (filters (snd (setup_calls (take k calls) (new_connection refs)))) = k)
    \<and> dispatch_filters disconnected_signal conn =
        (DBUS_HANDLER_RESULT_NOT_YET_HANDLED,
         conn\<lparr>refcount := refs - int (length calls),
              trace := concat (map filter_events (map snd calls))\<rparr>)
    \<and> length (filter (\<lambda>e. e = ConnectionUnref) (concat (map filter_events (map snd calls))))
        = length calls"
proof -
  have n: "installed_once conn \<and> filters conn = map snd calls \<and> length rets = length calls
      \<and> refcount conn = refs \<and> trace conn = []"
    using assms by (rule setup_calls_new)
  have p: "installed_once (snd (setup_calls (take k calls) (new_connection refs)))
          \<and> length (filters (snd (setup_calls (take k calls) (new_connection refs)))) = k"
    if "1 \<le> k \<and> k \<le> length calls" for k
    using setup_calls_prefix [OF assms(1,2), of k] that by simp
  have d: "dispatch_filters disconnected_signal conn =
        (DBUS_HANDLER_RESULT_NOT_YET_HANDLED,
         conn\<lparr>refcount := refs - int (length calls),
              trace := concat (map filter_events (map snd calls))\<rparr>)"
    unfolding dispatch_filters_def
    using n by (simp add: run_filters_disconnected [OF disconnected_signal_matches])
  have u: "length (filter (\<lambda>e. e = ConnectionUnref) (concat (map filter_events hs))) = length hs" for hs
    by (induction hs) (auto simp: filter_events_def split: option.splits)
  show ?thesis
    using n p d u [of "map snd calls"] by (simp add: installed_once_def)
qed

theorem setup_installs_once_witness:
  "setup_calls [(all_ok, Some 1), (all_ok, None), (all_ok, Some 1)] (new_connection 5) =
     ([0, 0, 0],
      \<lparr>refcount = 5, main_loop_data = True, main_loop_funcs = 1, watch_functions = 1,
       timeout_functions = 1, wakeup_main_functions = 1, filters = [Some 1, None, Some 1],
       trace = []\<rparr>)
   \<and> list_all (\<lambda>r. r = 0) [0, 0, 0 :: int]
   \<and> dispatch_filters disconnected_signal
        \<lparr>refcount = 5, main_loop_data = True, main_loop_funcs = 1, watch_functions = 1,
         timeout_functions = 1, wakeup_main_functions = 1, filters = [Some 1, None, Some 1],
         trace = []\<rparr> =
       (DBUS_HANDLER_RESULT_NOT_YET_HANDLED,
        \<lparr>refcount = 2, main_loop_data = True, main_loop_funcs = 1, watch_functions = 1,
         timeout_functions = 1, wakeup_main_functions = 1, filters = [Some 1, None, Some 1],
         trace = [HandlerCalled 1, ConnectionUnref, ConnectionUnref,
                  HandlerCalled 1, ConnectionUnref]\<rparr>)"
proof -
  let ?calls = "[(all_ok, Some 1), (all_ok, None), (all_ok, Some (1::nat))]"
  let ?conn = "\<lparr>refcount = 5, main_loop_data = True, main_loop_funcs = 1, watch_functions = 1,
       timeout_functions = 1, wakeup_main_functions = 1, filters = [Some 1, None, Some 1],
       trace = []\<rparr>"
  have s: "setup_calls ?calls (new_connection 5) = ([0, 0, 0], ?conn)"
    by (simp add: nih_dbus_setup_def setup_shared_def all_ok_def new_connection_def)
  have z: "list_all (\<lambda>r. r = 0) [0, 0, 0 :: int]" by simp
  have c: "?calls \<noteq> []" by simp
  show ?thesis
    using setup_installs_once [OF s z c] s by (simp add: filter_events_def)
qed

text \<open>
  C5 as stated fails when a call of setup fails: when \<open>dbus_connection_add_filter\<close> has
  no memory, the one call has installed the functions and no filter.
\<close>

theorem setup_failure_counterexample:
  "nih_dbus_setup (all_ok\<lparr>add_filter_ok := False\<rparr>) (Some 1) (new_connection 1) =
     (- 1,
      \<lparr>refcount = 1, main_loop_data = True, main_loop_funcs = 1, watch_functions = 1,
       timeout_functions = 1, wakeup_main_functions = 1, filters = [],
       trace = []\<rparr>)"
  by (simp add: nih_dbus_setup_def setup_shared_def all_ok_def new_connection_def)

text \<open>
  C6. A message that is the signal \<open>Disconnected\<close> of the local interface at the local
  path makes the filter call the user handler, when there is one, then release one
  reference of the connection, and return not-yet-handled; for any other message the
  filter returns not-yet-handled and calls and releases nothing. After two setups with
  a handler on one connection, the signal calls the handler twice and takes exactly two
  references.
\<close>

theorem disconnect_filter:
  "(dbus_message_is_signal message DBUS_INTERFACE_LOCAL ''Disconnected''
      \<and> dbus_message_has_path message DBUS_PATH_LOCAL \<longrightarrow>
        nih_dbus_connection_disconnected conn message (Some h) =
          (DBUS_HANDLER_RESULT_NOT_YET_HANDLED,
           conn\<lparr>refcount := refcount conn - 1,
                trace := trace conn @ [HandlerCalled h, ConnectionUnref]\<rparr>)
      \<and> nih_dbus_connection_disconnected conn message None =
          (DBUS_HANDLER_RESULT_NOT_YET_HANDLED,
           conn\<lparr>refcount := refcount conn - 1, trace := trace conn @ [ConnectionUnref]\<rparr>))
   \<and> (\<not> (dbus_message_is_signal message DBUS_INTERFACE_LOCAL ''Disconnected''
          \<and> dbus_message_has_path message DBUS_PATH_LOCAL) \<longrightarrow>
        nih_dbus_connection_disconnected conn message handler =
          (DBUS_HANDLER_RESULT_NOT_YET_HANDLED, conn))
   \<and> (case setup_calls [(all_ok, Some h), (all_ok, Some h)] (new_connection refs) of
        (rets, conn2) \<Rightarrow>
          rets = [0, 0]
          \<and> dispatch_filters disconnected_signal conn2 =
              (DBUS_HANDLER_RESULT_NOT_YET_HANDLED,
               conn2\<lparr>refcount := refs - 2,
                     trace := [HandlerCalled h, ConnectionUnref,
                               HandlerCalled h, ConnectionUnref]\<rparr>))"
proof -
  have a: "nih_dbus_connection_disconnected conn message (Some h) =
          (DBUS_HANDLER_RESULT_NOT_YET_HANDLED,
           conn\<lparr>refcount := refcount conn - 1,
                trace := trace conn @ [HandlerCalled h, ConnectionUnref]\<rparr>)
      \<and> nih_dbus_connection_disconnected conn message None =
          (DBUS_HANDLER_RESULT_NOT_YET_HANDLED,
           conn\<lparr>refcount := refcount conn - 1, trace := trace conn @ [ConnectionUnref]\<rparr>)"
    if "dbus_message_is_signal message DBUS_INTERFACE_LOCAL ''Disconnected''
      \<and> dbus_message_has_path message DBUS_PATH_LOCAL"
    using that by (simp add: disconnected_filter_match filter_events_def)
  have b: "nih_dbus_connection_disconnected conn message handler =
          (DBUS_HANDLER_RESULT_NOT_YET_HANDLED, conn)"
    if "\<not> (dbus_message_is_signal message DBUS_INTERFACE_LOCAL ''Disconnected''
          \<and> dbus_message_has_path message DBUS_PATH_LOCAL)"
    using that by (rule disconnected_filter_other)
  have c: "(case setup_calls [(all_ok, Some h), (all_ok, Some h)] (new_connection refs) of
        (rets, conn2) \<Rightarrow>
          rets = [0, 0]
          \<and> dispatch_filters disconnected_signal conn2 =
              (DBUS_HANDLER_RESULT_NOT_YET_HANDLED,
               conn2\<lparr>refcount := refs - 2,
                     trace := [HandlerCalled h, ConnectionUnref,
                               HandlerCalled h, ConnectionUnref]\<rparr>))"
    by (simp add: nih_dbus_setup_def setup_shared_def all_ok_def new_connection_def
        dispatch_filters_def run_filters_disconnected [OF disconnected_signal_matches]
        filter_events_def)
  show ?thesis using a b c by blast
qed

theorem disconnect_filter_witness:
  "dbus_message_is_signal disconnected_signal DBUS_INTERFACE_LOCAL ''Disconnected''
   \<and> dbus_message_has_path disconnected_signal DBUS_PATH_LOCAL
   \<and> nih_dbus_connection_disconnected (new_connection 2) disconnected_signal (Some 5) =
       (DBUS_HANDLER_RESULT_NOT_YET_HANDLED,
        (new_connection 2)\<lparr>refcount := 1, trace := [HandlerCalled 5, ConnectionUnref]\<rparr>)
   \<and> \<not> (dbus_message_is_signal (disconnected_signal\<lparr>msg_member := Some ''NameLost''\<rparr>)
            DBUS_INTERFACE_LOCAL ''Disconnected''
          \<and> dbus_message_has_path (disconnected_signal\<lparr>msg_member := Some ''NameLost''\<rparr>)
              DBUS_PATH_LOCAL)
   \<and> nih_dbus_connection_disconnected (new_connection 2)
        (disconnected_signal\<lparr>msg_member := Some ''NameLost''\<rparr>) (Some 5) =
       (DBUS_HANDLER_RESULT_NOT_YET_HANDLED, new_connection 2)"
proof -
  have m: "dbus_message_is_signal disconnected_signal DBUS_INTERFACE_LOCAL ''Disconnected''
      \<and> dbus_message_has_path disconnected_signal DBUS_PATH_LOCAL"
    by (simp add: disconnected_signal_matches)
  have n: "\<not> (dbus_message_is_signal (disconnected_signal\<lparr>msg_member := Some ''NameLost''\<rparr>)
            DBUS_INTERFACE_LOCAL ''Disconnected''
          \<and> dbus_message_has_path (disconnected_signal\<lparr>msg_member := Some ''NameLost''\<rparr>)
              DBUS_PATH_LOCAL)"
    by (simp add: disconnected_signal_def dbus_message_is_signal_def has_type_interface_member_def)
  have r: "refcount (new_connection 2) - 1 = 1" "trace (new_connection 2) = []"
    by (simp_all add: new_connection_def)
  show ?thesis
    using disconnect_filter [of disconnected_signal "new_connection 2" 5]
      disconnect_filter [of "disconnected_signal\<lparr>msg_member := Some ''NameLost''\<rparr>"
        "new_connection 2" 5 "Some 5"] m n r
    by simp
qed

text \<open>
  C8. Releasing an object whose \<open>registered\<close> flag is set runs the destructor, which
  clears the flag and unregisters the path with the library once; the unregister
  callback the library then makes finds the flag cleared and does nothing, so the block
  is freed once. The unregister callback on an object whose flag is set clears the flag
  and releases the object; the destructor this runs finds the flag cleared and
  unregisters nothing. On an object whose flag is already cleared the destructor and
  the callback change nothing.
\<close>

theorem object_teardown_idempotent:
  "(registered object \<and> path_registered object \<longrightarrow>
      nih_dbus_object_destroy object =
        object\<lparr>registered := False, path_registered := False,
               unregister_calls := unregister_calls object + 1\<rparr>
    \<and> nih_free object =
        object\<lparr>registered := False, path_registered := False,
               unregister_calls := unregister_calls object + 1,
               freed := True, free_calls := free_calls object + 1\<rparr>)
   \<and> (registered object \<longrightarrow>
      nih_dbus_object_unregister object =
        object\<lparr>registered := False, freed := True, free_calls := free_calls object + 1\<rparr>)
   \<and> (\<not> registered object \<longrightarrow>
      nih_dbus_object_destroy object = object
    \<and> nih_dbus_object_unregister object = object
    \<and> nih_free object = object\<lparr>freed := True, free_calls := free_calls object + 1\<rparr>)"
  by simp

theorem object_teardown_idempotent_witness:
  "registered \<lparr>registered = True, freed = False, path_registered = True,
                unregister_calls = 0, free_calls = 0\<rparr>
   \<and> path_registered \<lparr>registered = True, freed = False, path_registered = True,
                unregister_calls = 0, free_calls = 0\<rparr>
   \<and> nih_free \<lparr>registered = True, freed = False, path_registered = True,
                unregister_calls = 0, free_calls = 0\<rparr> =
       \<lparr>registered = False, freed = True, path_registered = False,
        unregister_calls = 1, free_calls = 1\<rparr>
   \<and> nih_dbus_object_unregister \<lparr>registered = True, freed = False, path_registered = False,
                unregister_calls = 0, free_calls = 0\<rparr> =
       \<lparr>registered = False, freed = True, path_registered = False,
        unregister_calls = 0, free_calls = 1\<rparr>
   \<and> \<not> registered \<lparr>registered = False, freed = False, path_registered = False,
                unregister_calls = 1, free_calls = 0\<rparr>
   \<and> nih_dbus_object_destroy \<lparr>registered = False, freed = False, path_registered = False,
                unregister_calls = 1, free_calls = 0\<rparr> =
       \<lparr>registered = False, freed = False, path_registered = False,
        unregister_calls = 1, free_calls = 0\<rparr>
   \<and> nih_dbus_object_unregister \<lparr>registered = False, freed = False, path_registered = False,
                unregister_calls = 1, free_calls = 0\<rparr> =
       \<lparr>registered = False, freed = False, path_registered = False,
        unregister_calls = 1, free_calls = 0\<rparr>"
  using
    object_teardown_idempotent [of "\<lparr>registered = True, freed = False, path_registered = True,
                unregister_calls = 0, free_calls = 0\<rparr>"]
    object_teardown_idempotent [of "\<lparr>registered = True, freed = False, path_registered = False,
                unregister_calls = 0, free_calls = 0\<rparr>"]
    object_teardown_idempotent [of "\<lparr>registered = False, freed = False, path_registered = False,
                unregister_calls = 1, free_calls = 0\<rparr>"]
  by (simp del: nih_dbus_object_destroy.simps nih_dbus_object_unregister.simps nih_free.simps
      dbus_connection_unregister_object_path.simps)

text \<open>
  C9. The memory of a call is the number of its calls that can fail which succeed
  before the first one fails; an allocation fails during the assembly of the document
  or the construction of the reply exactly when this is less than the number of such
  calls a complete run makes. Then the handler returns need-memory, has released
  everything it allocated (the partial string, the child list, the reply), has released
  nothing twice, and has sent nothing. Otherwise it returns handled, has released
  everything, and has sent one reply, the complete document.
\<close>

theorem introspect_all_or_nothing:
  "(budget < introspect_calls object listed \<longrightarrow>
      nih_dbus_object_introspect budget listed object =
        (DBUS_HANDLER_RESULT_NEED_MEMORY, \<lparr>live = [], bad_release = False, sent = []\<rparr>))
   \<and> (introspect_calls object listed \<le> budget \<longrightarrow>
      nih_dbus_object_introspect budget listed object =
        (DBUS_HANDLER_RESULT_HANDLED,
         \<lparr>live = [], bad_release = False, sent = [spec_introspection_xml object listed]\<rparr>))"
  using introspect_failure [of budget object listed] introspect_success [of object listed budget]
  by blast

theorem introspect_all_or_nothing_witness:
  "5 < introspect_calls example_object [''b'']
   \<and> nih_dbus_object_introspect 5 [''b''] example_object =
        (DBUS_HANDLER_RESULT_NEED_MEMORY, \<lparr>live = [], bad_release = False, sent = []\<rparr>)
   \<and> introspect_calls example_object [''b''] \<le> 24
   \<and> nih_dbus_object_introspect 24 [''b''] example_object =
        (DBUS_HANDLER_RESULT_HANDLED,
         \<lparr>live = [], bad_release = False, sent = [spec_introspection_xml example_object [''b'']]\<rparr>)"
proof -
  have c: "introspect_calls example_object [''b''] = 24"
    by (simp add: introspect_calls_def head_calls_def interface_calls_def method_calls_def
        signal_calls_def declares_property_def example_object_def)
  show ?thesis
    using introspect_all_or_nothing [of 5 example_object "[''b'']"]
      introspect_all_or_nothing [of 24 example_object "[''b'']"]
    by (simp add: c)
qed

text \<open>
  C4 as stated fails: the interfaces of the table are printed as the table declares
  them, so the reply for an object with no property whose table declares an interface
  with the name, the methods and the argument lists of the Properties interface holds
  the whole Properties interface.
\<close>

theorem introspection_properties_table_counterexample:
  "nih_dbus_object_introspect 24 [] properties_table_object =
     (DBUS_HANDLER_RESULT_HANDLED,
      \<lparr>live = [], bad_release = False,
       sent = [DBUS_INTROSPECT_1_0_XML_DOCTYPE_DECL_NODE @ node_open_text ''/a''
               @ introspectable_text @ properties_interface_text @ node_close_text]\<rparr>)
   \<and> \<not> list_ex (\<lambda>interface. properties interface \<noteq> []) (interfaces properties_table_object)
   \<and> sublist properties_interface_text
       (DBUS_INTROSPECT_1_0_XML_DOCTYPE_DECL_NODE @ node_open_text ''/a''
        @ introspectable_text @ properties_interface_text @ node_close_text)
   \<and> properties_interface_text \<noteq> []"
proof -
  have r: "nih_dbus_object_introspect 24 [] properties_table_object =
     (DBUS_HANDLER_RESULT_HANDLED,
      \<lparr>live = [], bad_release = False,
       sent = [DBUS_INTROSPECT_1_0_XML_DOCTYPE_DECL_NODE @ node_open_text ''/a''
               @ introspectable_text @ properties_interface_text @ node_close_text]\<rparr>)"
    using introspect_success [of properties_table_object "[]" 24]
    by (simp add: properties_table_calls properties_table_xml)
  have n: "\<not> list_ex (\<lambda>interface. properties interface \<noteq> []) (interfaces properties_table_object)"
    by (simp add: properties_table_object_def)
  have c: "sublist properties_interface_text
       (DBUS_INTROSPECT_1_0_XML_DOCTYPE_DECL_NODE @ node_open_text ''/a''
        @ introspectable_text @ properties_interface_text @ node_close_text)"
    by (metis sublist_appendI append.assoc)
  have e: "properties_interface_text \<noteq> []"
    by (simp add: properties_interface_text_def)
  show ?thesis
    using r n c e by (intro conjI)
qed

text \<open>
  C4, amended. Whenever the handler sends a reply, the document is the doctype
  declaration, the root node, the Introspectable interface, the interfaces of the table
  as the table declares them, in table order, then the Properties interface (with Get,
  Set and GetAll and their argument lists) if a property is declared somewhere in the
  table and nothing if none is, then the child nodes and the closing tag. So the
  Introspectable interface is always in the document and the Properties interface is in
  it whenever a property is declared; and when no string printed from the object (its
  path, the names of its interfaces, methods and signals, the names and types of their
  arguments, the child names) holds a double quote or is the name of the Properties
  interface, the Properties interface is in the document only if a property is declared. The text of the blocks is the one of the source: the
  reply for \<open>sample_object\<close> is \<open>sample_document\<close>, character by character.
\<close>

theorem introspection_properties_iff:
  assumes "nih_dbus_object_introspect budget listed object = (DBUS_HANDLER_RESULT_HANDLED, s)"
  shows "sent s =
      [DBUS_INTROSPECT_1_0_XML_DOCTYPE_DECL_NODE
       @ node_open_text (object_path object)
       @ introspectable_text
       @ concat (map spec_interface_xml (interfaces object))
       @ (if (\<exists>interface \<in> set (interfaces object). properties interface \<noteq> [])
          then properties_interface_text else [])
       @ concat (map child_node_text listed)
       @ node_close_text]
    \<and> list_all (sublist introspectable_text) (sent s)
    \<and> ((\<exists>interface \<in> set (interfaces object). properties interface \<noteq> []) \<longrightarrow>
          list_all (sublist properties_interface_text) (sent s))
    \<and> (plain_names object listed \<and> list_ex (sublist properties_interface_text) (sent s) \<longrightarrow>
          (\<exists>interface \<in> set (interfaces object). properties interface \<noteq> []))
    \<and> introspect_calls object listed \<le> budget
    \<and> nih_dbus_object_introspect 22 [''child''] sample_object =
        (DBUS_HANDLER_RESULT_HANDLED,
         \<lparr>live = [], bad_release = False, sent = [sample_document]\<rparr>)"
proof -
  have b: "introspect_calls object listed \<le> budget"
  proof (rule ccontr)
    assume "\<not> introspect_calls object listed \<le> budget"
    then have "budget < introspect_calls object listed" by simp
    from introspect_failure [OF this] assms show False by simp
  qed
  from introspect_success [OF b] assms
  have s: "sent s = [spec_introspection_xml object listed]" by auto
  have d: "declares_property object = (\<exists>interface \<in> set (interfaces object). properties interface \<noteq> [])"
    by (simp add: declares_property_def list_ex_iff)
  have i: "sublist introspectable_text (spec_introspection_xml object listed)"
    unfolding spec_introspection_xml_def
    by (metis sublist_appendI append.assoc)
  have p: "sublist properties_interface_text (spec_introspection_xml object listed)"
    if "declares_property object"
    unfolding spec_introspection_xml_def using that
    by (simp only: if_True) (metis sublist_appendI append.assoc)
  have q: "declares_property object"
    if "plain_names object listed"
      and "sublist properties_interface_text (spec_introspection_xml object listed)"
    using properties_text_only_if_declared [of object listed] that by blast
  have c1: "sent s =
      [DBUS_INTROSPECT_1_0_XML_DOCTYPE_DECL_NODE
       @ node_open_text (object_path object)
       @ introspectable_text
       @ concat (map spec_interface_xml (interfaces object))
       @ (if (\<exists>interface \<in> set (interfaces object). properties interface \<noteq> [])
          then properties_interface_text else [])
       @ concat (map child_node_text listed)
       @ node_close_text]"
    using s d by (simp add: spec_introspection_xml_def)
  have c2: "list_all (sublist introspectable_text) (sent s)"
    using s i by simp
  have c3: "(\<exists>interface \<in> set (interfaces object). properties interface \<noteq> []) \<longrightarrow>
          list_all (sublist properties_interface_text) (sent s)"
    using s d p by simp
  have c4: "plain_names object listed \<and> list_ex (sublist properties_interface_text) (sent s) \<longrightarrow>
          (\<exists>interface \<in> set (interfaces object). properties interface \<noteq> [])"
    using s d q by simp
  show ?thesis
    using c1 c2 c3 c4 b sample_reply by (intro conjI)
qed

theorem introspection_properties_iff_witness:
  "nih_dbus_object_introspect 22 [''child''] sample_object =
     (DBUS_HANDLER_RESULT_HANDLED,
      \<lparr>live = [], bad_release = False, sent = [sample_document]\<rparr>)
   \<and> list_ex (\<lambda>interface. properties interface \<noteq> []) (interfaces sample_object)
   \<and> plain_names sample_object [''child'']
   \<and> sublist properties_interface_text sample_document
   \<and> sublist introspectable_text sample_document
   \<and> introspect_calls sample_object [''child''] \<le> 22
   \<and> nih_dbus_object_introspect 9 [''child''] (sample_object\<lparr>interfaces := []\<rparr>) =
       (DBUS_HANDLER_RESULT_HANDLED,
        \<lparr>live = [], bad_release = False,
         sent = [spec_introspection_xml (sample_object\<lparr>interfaces := []\<rparr>) [''child'']]\<rparr>)
   \<and> plain_names (sample_object\<lparr>interfaces := []\<rparr>) [''child'']
   \<and> \<not> sublist properties_interface_text
         (spec_introspection_xml (sample_object\<lparr>interfaces := []\<rparr>) [''child''])"
proof -
  note t = introspection_properties_iff [OF sample_reply]
  have e: "list_ex (\<lambda>interface. properties interface \<noteq> []) (interfaces sample_object)"
    by (simp add: sample_object_def)
  then have e': "\<exists>interface \<in> set (interfaces sample_object). properties interface \<noteq> []"
    by (simp add: list_ex_iff)
  have i: "sublist introspectable_text sample_document"
    using t by (elim conjE) simp
  have p: "sublist properties_interface_text sample_document"
    using t e' by (elim conjE) simp
  have b: "introspect_calls sample_object [''child''] \<le> 22"
    using t by (elim conjE) simp
  have r0: "nih_dbus_object_introspect 9 [''child''] (sample_object\<lparr>interfaces := []\<rparr>) =
       (DBUS_HANDLER_RESULT_HANDLED,
        \<lparr>live = [], bad_release = False,
         sent = [spec_introspection_xml (sample_object\<lparr>interfaces := []\<rparr>) [''child'']]\<rparr>)"
    by (rule introspect_success)
      (simp add: introspect_calls_def head_calls_def declares_property_def)
  have p0: "plain_names (sample_object\<lparr>interfaces := []\<rparr>) [''child'']"
    by (simp add: plain_names_def printed_strings_def plain_def sample_object_def
        double_quote_def DBUS_INTERFACE_PROPERTIES_def)
  note t0 = introspection_properties_iff [OF r0]
  have n0: "\<not> sublist properties_interface_text
         (spec_introspection_xml (sample_object\<lparr>interfaces := []\<rparr>) [''child''])"
    using t0 p0 by (elim conjE) simp
  show ?thesis
    using sample_reply e sample_plain p i b r0 p0 n0 by (intro conjI)
qed

text \<open>
  C3, amended. For every message delivered to a registered object: a method call
  \<open>Introspect\<close> of the Introspectable interface is answered by the introspection, whose
  result is returned (handled, with the reply sent, when its allocations succeed,
  need-memory otherwise); else a method call \<open>Get\<close>, \<open>Set\<close> or \<open>GetAll\<close> of the Properties
  interface returns not-yet-handled; else the first (interface, method) pair in table
  order whose names match the message has its marshaller called with a fresh wrapper
  holding the connection and the message, between taking and dropping a reference of
  the message, the wrapper is freed, and the result of the marshaller is returned,
  unless the wrapper cannot be allocated: then need-memory is returned and no marshaller
  is called; if no method matches, not-yet-handled is returned.
\<close>

theorem object_message_dispatch:
  "(is_introspect message \<longrightarrow>
      nih_dbus_object_message call budget listed message object =
        (if introspect_calls object listed \<le> budget
         then (DBUS_HANDLER_RESULT_HANDLED, [],
               \<lparr>live = [], bad_release = False, sent = [spec_introspection_xml object listed]\<rparr>)
         else (DBUS_HANDLER_RESULT_NEED_MEMORY, [], no_effects)))
   \<and> (\<not> is_introspect message \<and> is_properties message \<longrightarrow>
      nih_dbus_object_message call budget listed message object =
        (DBUS_HANDLER_RESULT_NOT_YET_HANDLED, [], no_effects))
   \<and> (\<not> is_introspect message \<and> \<not> is_properties message \<longrightarrow>
      nih_dbus_object_message call budget listed message object =
        (case first_match message (interfaces object) of
           None \<Rightarrow> (DBUS_HANDLER_RESULT_NOT_YET_HANDLED, [], no_effects)
         | Some (interface, method) \<Rightarrow>
             if budget = 0 then (DBUS_HANDLER_RESULT_NEED_MEMORY, [], no_effects)
             else (call (marshaller method) object
                     \<lparr>wrapper_conn = object_conn object, wrapper_message = message\<rparr>,
                   [MessageRef,
                    MarshallerCalled (marshaller method) object
                      \<lparr>wrapper_conn = object_conn object, wrapper_message = message\<rparr>,
                    MessageUnref, WrapperFreed],
                   no_effects)))"
proof -
  have a: "nih_dbus_object_message call budget listed message object =
        (if introspect_calls object listed \<le> budget
         then (DBUS_HANDLER_RESULT_HANDLED, [],
               \<lparr>live = [], bad_release = False, sent = [spec_introspection_xml object listed]\<rparr>)
         else (DBUS_HANDLER_RESULT_NEED_MEMORY, [], no_effects))"
    if "is_introspect message"
  proof (cases "introspect_calls object listed \<le> budget")
    case True
    then show ?thesis
      using that by (simp add: nih_dbus_object_message_def is_introspect_def introspect_success)
  next
    case False
    then have "budget < introspect_calls object listed" by simp
    then show ?thesis
      using that False
      by (simp add: nih_dbus_object_message_def is_introspect_def introspect_failure no_effects_def)
  qed
  have b: "nih_dbus_object_message call budget listed message object =
        (DBUS_HANDLER_RESULT_NOT_YET_HANDLED, [], no_effects)"
    if "\<not> is_introspect message \<and> is_properties message"
    using that by (auto simp: nih_dbus_object_message_def is_introspect_def is_properties_def)
  have c: "nih_dbus_object_message call budget listed message object =
        (case first_match message (interfaces object) of
           None \<Rightarrow> (DBUS_HANDLER_RESULT_NOT_YET_HANDLED, [], no_effects)
         | Some (interface, method) \<Rightarrow>
             if budget = 0 then (DBUS_HANDLER_RESULT_NEED_MEMORY, [], no_effects)
             else (call (marshaller method) object
                     \<lparr>wrapper_conn = object_conn object, wrapper_message = message\<rparr>,
                   [MessageRef,
                    MarshallerCalled (marshaller method) object
                      \<lparr>wrapper_conn = object_conn object, wrapper_message = message\<rparr>,
                    MessageUnref, WrapperFreed],
                   no_effects))"
    if "\<not> is_introspect message \<and> \<not> is_properties message"
    using that
    by (auto simp: nih_dbus_object_message_def is_introspect_def is_properties_def
        interfaces_dispatch_first_match marshal_events_def split: option.splits)
  show ?thesis using a b c by blast
qed

theorem object_message_dispatch_witness:
  "is_introspect (method_call (Some DBUS_INTERFACE_INTROSPECTABLE) ''Introspect'')
   \<and> nih_dbus_object_message always_handled 24 [''b'']
        (method_call (Some DBUS_INTERFACE_INTROSPECTABLE) ''Introspect'') example_object =
       (DBUS_HANDLER_RESULT_HANDLED, [],
        \<lparr>live = [], bad_release = False, sent = [spec_introspection_xml example_object [''b'']]\<rparr>)
   \<and> \<not> is_introspect (method_call (Some DBUS_INTERFACE_PROPERTIES) ''Get'')
   \<and> is_properties (method_call (Some DBUS_INTERFACE_PROPERTIES) ''Get'')
   \<and> nih_dbus_object_message always_handled 24 [''b'']
        (method_call (Some DBUS_INTERFACE_PROPERTIES) ''Get'') example_object =
       (DBUS_HANDLER_RESULT_NOT_YET_HANDLED, [], no_effects)
   \<and> \<not> is_introspect (method_call (Some ''com.example.Second'') ''Peek'')
   \<and> \<not> is_properties (method_call (Some ''com.example.Second'') ''Peek'')
   \<and> fst (nih_dbus_object_message always_handled 24 [''b'']
        (method_call (Some ''com.example.Second'') ''Peek'') example_object) =
       DBUS_HANDLER_RESULT_HANDLED
   \<and> fst (snd (nih_dbus_object_message always_handled 24 [''b'']
        (method_call (Some ''com.example.Second'') ''Peek'') example_object)) =
       [MessageRef,
        MarshallerCalled 2 example_object
          \<lparr>wrapper_conn = 0,
           wrapper_message = method_call (Some ''com.example.Second'') ''Peek''\<rparr>,
        MessageUnref, WrapperFreed]
   \<and> nih_dbus_object_message always_handled 24 [''b'']
        (method_call (Some ''com.example.Second'') ''Nope'') example_object =
       (DBUS_HANDLER_RESULT_NOT_YET_HANDLED, [], no_effects)"
proof -
  have c: "introspect_calls example_object [''b''] = 24"
    by (simp add: introspect_calls_def head_calls_def interface_calls_def method_calls_def
        signal_calls_def declares_property_def example_object_def)
  have i: "is_introspect (method_call (Some DBUS_INTERFACE_INTROSPECTABLE) ''Introspect'')"
    by (simp add: is_introspect_def method_call_def dbus_message_is_method_call_def
        has_type_interface_member_def)
  have p: "\<not> is_introspect (method_call (Some DBUS_INTERFACE_PROPERTIES) ''Get'')"
    "is_properties (method_call (Some DBUS_INTERFACE_PROPERTIES) ''Get'')"
    by (simp_all add: is_introspect_def is_properties_def method_call_def
        dbus_message_is_method_call_def has_type_interface_member_def)
  have n: "\<not> is_introspect (method_call (Some ''com.example.Second'') m)"
    "\<not> is_properties (method_call (Some ''com.example.Second'') m)" for m
    by (simp_all add: is_introspect_def is_properties_def method_call_def
        dbus_message_is_method_call_def has_type_interface_member_def
        DBUS_INTERFACE_INTROSPECTABLE_def DBUS_INTERFACE_PROPERTIES_def)
  have f1: "first_match (method_call (Some ''com.example.Second'') ''Peek'')
      (interfaces example_object) =
      Some (interfaces example_object ! Suc 0, methods (interfaces example_object ! Suc 0) ! 0)"
    by (simp add: first_match_def table_pairs_def example_object_def method_call_def
        dbus_message_is_method_call_def has_type_interface_member_def)
  have f2: "first_match (method_call (Some ''com.example.Second'') ''Nope'')
      (interfaces example_object) = None"
    by (simp add: first_match_def table_pairs_def example_object_def method_call_def
        dbus_message_is_method_call_def has_type_interface_member_def)
  have m: "marshaller (methods (interfaces example_object ! Suc 0) ! 0) = 2"
    "object_conn example_object = 0"
    by (simp_all add: example_object_def)
  show ?thesis
    using
      object_message_dispatch [of "method_call (Some DBUS_INTERFACE_INTROSPECTABLE) ''Introspect''"
        always_handled 24 "[''b'']" example_object]
      object_message_dispatch [of "method_call (Some DBUS_INTERFACE_PROPERTIES) ''Get''"
        always_handled 24 "[''b'']" example_object]
      object_message_dispatch [of "method_call (Some ''com.example.Second'') ''Peek''"
        always_handled 24 "[''b'']" example_object]
      object_message_dispatch [of "method_call (Some ''com.example.Second'') ''Nope''"
        always_handled 24 "[''b'']" example_object]
      i p n
    by (simp add: c f1 f2 m always_handled_def)
qed

text \<open>
  C3 as stated fails when memory is short: a call of \<open>Peek\<close> whose wrapper cannot be
  allocated returns need-memory and calls no marshaller, though the marshaller would
  handle it, and a call of \<open>Introspect\<close> without memory returns need-memory.
\<close>

theorem object_message_memory_counterexample:
  "nih_dbus_object_message always_handled 0 [''b'']
      (method_call (Some ''com.example.Second'') ''Peek'') example_object =
     (DBUS_HANDLER_RESULT_NEED_MEMORY, [], no_effects)
   \<and> always_handled 2 example_object
        \<lparr>wrapper_conn = 0,
         wrapper_message = method_call (Some ''com.example.Second'') ''Peek''\<rparr> =
       DBUS_HANDLER_RESULT_HANDLED
   \<and> nih_dbus_object_message always_handled 0 [''b'']
        (method_call (Some DBUS_INTERFACE_INTROSPECTABLE) ''Introspect'') example_object =
       (DBUS_HANDLER_RESULT_NEED_MEMORY, [], no_effects)"
  by (simp add: nih_dbus_object_message_def example_object_def method_call_def
      dbus_message_is_method_call_def has_type_interface_member_def
      DBUS_INTERFACE_INTROSPECTABLE_def DBUS_INTERFACE_PROPERTIES_def always_handled_def
      no_effects_def nih_dbus_object_introspect_def introspect_error_def)

end
